theory Spec2Isabelle
  imports Complex_Main "HOL-Library.Multiset"
begin

section \<open>Floating-point samples\<close>

text \<open>
  The notebook computes on numpy arrays of floats with
  \<^verbatim>\<open>np.seterr(divide='ignore', invalid='ignore')\<close>: a division by zero or an invalid
  operation raises nothing and yields an infinity or a NaN.  A sample is modelled as
  a real number or one of the three special values.  Arithmetic on finite values is
  exact (no rounding, no overflow, no underflow) and zero carries no sign (it behaves as
  \<open>+0.0\<close>); the special values follow IEEE 754.  Where a property depends on how an
  operation of the libraries rounds, that operation is taken as a parameter instead
  (see \<open>lee_filter_with\<close>).
\<close>

datatype fl = Fin real | PInf | NInf | NaN

definition sgn_inf :: "real \<Rightarrow> fl" where
  "sgn_inf x = (if x = 0 then NaN else if 0 < x then PInf else NInf)"

fun fneg :: "fl \<Rightarrow> fl" where
  "fneg (Fin x) = Fin (- x)"
| "fneg PInf = NInf"
| "fneg NInf = PInf"
| "fneg NaN = NaN"

fun fadd :: "fl \<Rightarrow> fl \<Rightarrow> fl" where
  "fadd (Fin x) (Fin y) = Fin (x + y)"
| "fadd NaN _ = NaN"
| "fadd _ NaN = NaN"
| "fadd PInf NInf = NaN"
| "fadd NInf PInf = NaN"
| "fadd PInf _ = PInf"
| "fadd _ PInf = PInf"
| "fadd NInf _ = NInf"
| "fadd _ NInf = NInf"

definition fsub :: "fl \<Rightarrow> fl \<Rightarrow> fl" where
  "fsub a b = fadd a (fneg b)"

fun fmul :: "fl \<Rightarrow> fl \<Rightarrow> fl" where
  "fmul (Fin x) (Fin y) = Fin (x * y)"
| "fmul NaN _ = NaN"
| "fmul _ NaN = NaN"
| "fmul (Fin x) PInf = sgn_inf x"
| "fmul (Fin x) NInf = sgn_inf (- x)"
| "fmul PInf (Fin y) = sgn_inf y"
| "fmul NInf (Fin y) = sgn_inf (- y)"
| "fmul PInf PInf = PInf"
| "fmul NInf NInf = PInf"
| "fmul PInf NInf = NInf"
| "fmul NInf PInf = NInf"

fun fdiv :: "fl \<Rightarrow> fl \<Rightarrow> fl" where
  "fdiv (Fin x) (Fin y) = (if y = 0 then sgn_inf x else Fin (x / y))"
| "fdiv NaN _ = NaN"
| "fdiv _ NaN = NaN"
| "fdiv (Fin x) PInf = Fin 0"
| "fdiv (Fin x) NInf = Fin 0"
| "fdiv PInf (Fin y) = (if 0 \<le> y then PInf else NInf)"
| "fdiv NInf (Fin y) = (if 0 \<le> y then NInf else PInf)"
| "fdiv PInf PInf = NaN"
| "fdiv PInf NInf = NaN"
| "fdiv NInf PInf = NaN"
| "fdiv NInf NInf = NaN"

text \<open>\<^verbatim>\<open>np.log\<close> and \<^verbatim>\<open>np.sqrt\<close>.\<close>

fun flog :: "fl \<Rightarrow> fl" where
  "flog (Fin x) = (if 0 < x then Fin (ln x) else if x = 0 then NInf else NaN)"
| "flog PInf = PInf"
| "flog NInf = NaN"
| "flog NaN = NaN"

fun fsqrt :: "fl \<Rightarrow> fl" where
  "fsqrt (Fin x) = (if 0 \<le> x then Fin (sqrt x) else NaN)"
| "fsqrt PInf = PInf"
| "fsqrt NInf = NaN"
| "fsqrt NaN = NaN"

text \<open>Ordered comparison: false as soon as one side is NaN.\<close>

fun flt :: "fl \<Rightarrow> fl \<Rightarrow> bool" where
  "flt (Fin x) (Fin y) = (x < y)"
| "flt NaN _ = False"
| "flt _ NaN = False"
| "flt NInf NInf = False"
| "flt NInf _ = True"
| "flt PInf _ = False"
| "flt (Fin x) PInf = True"
| "flt (Fin x) NInf = False"

definition fgt :: "fl \<Rightarrow> fl \<Rightarrow> bool" where
  "fgt a b = flt b a"

definition fle :: "fl \<Rightarrow> fl \<Rightarrow> bool" where
  "fle a b = (flt a b \<or> (a = b \<and> a \<noteq> NaN))"

definition is_fin :: "fl \<Rightarrow> bool" where
  "is_fin a = (case a of Fin _ \<Rightarrow> True | _ \<Rightarrow> False)"

text \<open>Summation of the elements of an array, started from \<open>0.0\<close>.\<close>

definition fsum :: "fl list \<Rightarrow> fl" where
  "fsum xs = foldl fadd (Fin 0) xs"

section \<open>Rasters\<close>

text \<open>
  A raster is a two-dimensional numpy array of floats, kept as the list of its rows; an
  array without rows is the empty list, and its width counts as 0.  The rasters of the
  model are the values of \<^verbatim>\<open>img\<close> in \<^verbatim>\<open>clipped_read\<close> after the window has been read and the
  nodata samples have been set to 0: reading the window from the cloud store is not part
  of the model.
\<close>

type_synonym raster = "fl list list"

definition width :: "raster \<Rightarrow> nat" where
  "width img = (case img of [] \<Rightarrow> 0 | r # _ \<Rightarrow> length r)"

definition shape :: "raster \<Rightarrow> nat \<times> nat" where
  "shape img = (length img, width img)"

definition rect :: "raster \<Rightarrow> bool" where
  "rect img = (\<forall>r \<in> set img. length r = width img)"

text \<open>A raster with at least one pixel, all rows of one length.\<close>

definition wf_raster :: "raster \<Rightarrow> bool" where
  "wf_raster img = (rect img \<and> 0 < length img \<and> 0 < width img)"

text \<open>Elementwise operations on arrays of one shape, and with a scalar.\<close>

definition ew2 :: "(fl \<Rightarrow> fl \<Rightarrow> fl) \<Rightarrow> raster \<Rightarrow> raster \<Rightarrow> raster" where
  "ew2 f a b = map2 (map2 f) a b"

definition ew1 :: "(fl \<Rightarrow> fl) \<Rightarrow> raster \<Rightarrow> raster" where
  "ew1 f a = map (map f) a"

section \<open>scipy.ndimage line filters\<close>

text \<open>
  Boundary mode \<^verbatim>\<open>reflect\<close> (the default of every filter the notebook calls): the line
  \<^verbatim>\<open>a b c d\<close> is extended to \<^verbatim>\<open>... a b c d d c b a | a b c d | d c b a a b c d ...\<close>.
  \<open>reflect n k\<close> is the index inside a line of length \<open>n\<close> that position \<open>k\<close> of the
  extended line reads.
\<close>

definition reflect :: "nat \<Rightarrow> int \<Rightarrow> nat" where
  "reflect n k = (let m = k mod (2 * int n) in
                  nat (if m < int n then m else 2 * int n - 1 - m))"

text \<open>
  The window of a filter of size \<open>size\<close> and origin \<open>origin\<close> at output position \<open>i\<close>:
  \<open>size div 2 + origin\<close> samples to the left, the rest to the right.
\<close>

definition window :: "nat \<Rightarrow> int \<Rightarrow> fl list \<Rightarrow> nat \<Rightarrow> fl list" where
  "window sz origin line i =
     map (\<lambda>k. line ! reflect (length line) (int i - int (sz div 2) - origin + int k))
         [0..<sz]"

text \<open>
  \<^verbatim>\<open>uniform_filter1d\<close>: the first output is the sum of the first window divided by the
  size; each later output adds the sample entering the window and subtracts the one
  leaving it (a running sum).
\<close>

fun running :: "nat \<Rightarrow> fl \<Rightarrow> fl list \<Rightarrow> fl list \<Rightarrow> fl list" where
  "running sz tmp (a # l1) (b # l2) =
     (let tmp' = fadd tmp (fsub b a) in fdiv tmp' (Fin (real sz)) # running sz tmp' l1 l2)"
| "running sz tmp _ _ = []"

definition extend_line :: "nat \<Rightarrow> fl list \<Rightarrow> fl list" where
  "extend_line sz line =
     map (\<lambda>l. line ! reflect (length line) (int l - int (sz div 2)))
         [0..<length line + sz - 1]"

definition uniform_filter1d :: "nat \<Rightarrow> fl list \<Rightarrow> fl list" where
  "uniform_filter1d sz line =
     (if line = [] then []
      else let iline = extend_line sz line;
               tmp = fsum (take sz iline)
           in fdiv tmp (Fin (real sz)) # running sz tmp iline (drop sz iline))"

text \<open>Filtering along axis 0 (each column is a line) and along axis 1 (each row).\<close>

definition along_axis0 :: "(fl list \<Rightarrow> fl list) \<Rightarrow> raster \<Rightarrow> raster" where
  "along_axis0 f img =
     (let cols = map (\<lambda>j. f (map (\<lambda>r. r ! j) img)) [0..<width img]
      in map (\<lambda>i. map (\<lambda>c. c ! i) cols) [0..<length img])"

definition along_axis1 :: "(fl list \<Rightarrow> fl list) \<Rightarrow> raster \<Rightarrow> raster" where
  "along_axis1 f img = map f img"

text \<open>
  \<^verbatim>\<open>uniform_filter(img, (size, size))\<close>: the axes whose size is greater than 1 are
  filtered in turn, axis 0 first; when there is none the input is copied.
\<close>

definition uniform_filter :: "raster \<Rightarrow> nat \<Rightarrow> raster" where
  "uniform_filter img sz =
     (if 1 < sz then along_axis1 (uniform_filter1d sz) (along_axis0 (uniform_filter1d sz) img)
      else img)"

text \<open>
  \<^verbatim>\<open>scipy.ndimage.measurements.variance(img)\<close>: the sum of the squared deviations from
  the mean, divided by the number of samples.
\<close>

definition mean_all :: "fl list \<Rightarrow> fl" where
  "mean_all xs = fdiv (fsum xs) (Fin (real (length xs)))"

definition variance :: "raster \<Rightarrow> fl" where
  "variance img =
     (let xs = concat img; m = mean_all xs
      in fdiv (fsum (map (\<lambda>x. fmul (fsub x m) (fsub x m)) xs)) (Fin (real (length xs))))"

section \<open>The speckle filter\<close>

definition img_mean :: "raster \<Rightarrow> nat \<Rightarrow> raster" where
  "img_mean img sz = uniform_filter img sz"

definition img_sqr_mean :: "raster \<Rightarrow> nat \<Rightarrow> raster" where
  "img_sqr_mean img sz = uniform_filter (ew1 (\<lambda>x. fmul x x) img) sz"

definition img_variance :: "raster \<Rightarrow> nat \<Rightarrow> raster" where
  "img_variance img sz =
     ew2 fsub (img_sqr_mean img sz) (ew1 (\<lambda>x. fmul x x) (img_mean img sz))"

definition overall_variance :: "raster \<Rightarrow> fl" where
  "overall_variance img = variance img"

definition img_weights :: "raster \<Rightarrow> nat \<Rightarrow> raster" where
  "img_weights img sz =
     ew2 fdiv (img_variance img sz)
              (ew1 (\<lambda>v. fadd v (overall_variance img)) (img_variance img sz))"

definition lee_filter :: "raster \<Rightarrow> nat \<Rightarrow> raster" where
  "lee_filter img sz =
     ew2 fadd (img_mean img sz)
              (ew2 fmul (img_weights img sz) (ew2 fsub img (img_mean img sz)))"

text \<open>
  The same function with the two operations that round, overflow or underflow on floats
  taken as parameters: \<open>sq\<close> is the square \<^verbatim>\<open>**2\<close> of a sample and \<open>var\<close> is
  \<^verbatim>\<open>scipy.ndimage.measurements.variance\<close>.  A statement proved for every \<open>sq\<close> and \<open>var\<close>
  holds whatever the floating-point square and variance return.
\<close>

definition lee_filter_with :: "(fl \<Rightarrow> fl) \<Rightarrow> (raster \<Rightarrow> fl) \<Rightarrow> raster \<Rightarrow> nat \<Rightarrow> raster" where
  "lee_filter_with sq var img sz =
     (let img_mean = uniform_filter img sz;
          img_sqr_mean = uniform_filter (ew1 sq img) sz;
          img_variance = ew2 fsub img_sqr_mean (ew1 sq img_mean);
          overall_variance = var img;
          img_weights = ew2 fdiv img_variance (ew1 (\<lambda>v. fadd v overall_variance) img_variance);
          img_output = ew2 fadd img_mean (ew2 fmul img_weights (ew2 fsub img img_mean))
      in img_output)"


text \<open>\<^verbatim>\<open>clipped_read\<close>, from the point where the window has been read and cleaned.\<close>

record config =
  THRSET :: real
  MORPHWINSIZE :: nat
  FILTSIZE :: nat

definition clipped_read :: "config \<Rightarrow> raster \<Rightarrow> raster" where
  "clipped_read c img = lee_filter img (FILTSIZE c)"

section \<open>Grey-scale morphology\<close>

text \<open>
  Modelled from the spec: \<^verbatim>\<open>scipy.ndimage.morphology.grey_opening\<close> and the line filters
  under it are library code and not part of the repository.  The spec (4.3) describes the
  cleaner as grey-scale opening, erosion followed by dilation with a square window of side
  \<^verbatim>\<open>windowSize\<close>: erosion takes the least and dilation the greatest sample of each window.
  The boundary mode is the library's default, \<^verbatim>\<open>reflect\<close>.

  \<^verbatim>\<open>minimum_filter1d\<close> and \<^verbatim>\<open>maximum_filter1d\<close> give the least and the greatest sample of
  each window; the comparison of two samples is the one of C (\<open>b < a\<close>, false on NaN),
  applied from left to right.  On a line without NaN this is the minimum and the maximum
  whatever the order of the comparisons; on a line that holds NaN the library, which
  keeps a queue of candidates, can return another sample of the window.
  A filter is only ever run with a size greater than 1, so its windows are never empty.
\<close>

definition fmin :: "fl \<Rightarrow> fl \<Rightarrow> fl" where
  "fmin a b = (if flt b a then b else a)"

definition fmax :: "fl \<Rightarrow> fl \<Rightarrow> fl" where
  "fmax a b = (if flt a b then b else a)"

definition fold1 :: "(fl \<Rightarrow> fl \<Rightarrow> fl) \<Rightarrow> fl list \<Rightarrow> fl" where
  "fold1 f w = (case w of [] \<Rightarrow> NaN | x # xs \<Rightarrow> foldl f x xs)"

definition minimum_filter1d :: "nat \<Rightarrow> int \<Rightarrow> fl list \<Rightarrow> fl list" where
  "minimum_filter1d sz origin line =
     map (\<lambda>i. fold1 fmin (window sz origin line i)) [0..<length line]"

definition maximum_filter1d :: "nat \<Rightarrow> int \<Rightarrow> fl list \<Rightarrow> fl list" where
  "maximum_filter1d sz origin line =
     map (\<lambda>i. fold1 fmax (window sz origin line i)) [0..<length line]"

text \<open>
  \<^verbatim>\<open>_min_or_max_filter\<close> with a \<^verbatim>\<open>size\<close> and no footprint is separable: one line filter per
  axis whose size is greater than 1, axis 0 first, and a copy when there is none.
\<close>

definition min_or_max_filter :: "raster \<Rightarrow> nat \<Rightarrow> int \<Rightarrow> bool \<Rightarrow> raster" where
  "min_or_max_filter img sz origin minimum =
     (let filter1d = (if minimum then minimum_filter1d sz origin else maximum_filter1d sz origin)
      in if 1 < sz then along_axis1 filter1d (along_axis0 filter1d img) else img)"

definition grey_erosion :: "raster \<Rightarrow> nat \<Rightarrow> raster" where
  "grey_erosion img sz = min_or_max_filter img sz 0 True"

text \<open>\<^verbatim>\<open>grey_dilation\<close> negates the origin and moves it by one for an even size.\<close>

definition grey_dilation :: "raster \<Rightarrow> nat \<Rightarrow> raster" where
  "grey_dilation img sz = min_or_max_filter img sz (if even sz then - 1 else 0) False"

text \<open>
  Modelled from the spec: the library's \<^verbatim>\<open>grey_opening\<close> is not part of the repository;
  opening is erosion followed by dilation with the same window (spec 4.3).
\<close>

definition grey_opening :: "raster \<Rightarrow> nat \<Rightarrow> raster" where
  "grey_opening img sz = grey_dilation (grey_erosion img sz) sz"

section \<open>Log ratio and thresholding\<close>

datatype error = ValueError | NameError | IndexError

text \<open>
  numpy broadcasting of two 2-D arrays: along each axis the lengths are equal or one of
  them is 1, and then that array is read at index 0; otherwise the operation raises
  \<^verbatim>\<open>ValueError\<close>.
\<close>

definition broadcast_dim :: "nat \<Rightarrow> nat \<Rightarrow> nat option" where
  "broadcast_dim a b =
     (if a = b then Some a else if a = 1 then Some b else if b = 1 then Some a else None)"

definition bcast_at :: "raster \<Rightarrow> nat \<Rightarrow> nat \<Rightarrow> fl" where
  "bcast_at a i j = a ! (if length a = 1 then 0 else i) ! (if width a = 1 then 0 else j)"

definition broadcast2 :: "(fl \<Rightarrow> fl \<Rightarrow> fl) \<Rightarrow> raster \<Rightarrow> raster \<Rightarrow> error + raster" where
  "broadcast2 f a b =
     (case (broadcast_dim (length a) (length b), broadcast_dim (width a) (width b)) of
        (Some h, Some w) \<Rightarrow>
          Inr (map (\<lambda>i. map (\<lambda>j. f (bcast_at a i j) (bcast_at b i j)) [0..<w]) [0..<h])
      | _ \<Rightarrow> Inl ValueError)"

text \<open>\<^verbatim>\<open>dIx = np.log(img2/img1)\<close>\<close>

definition log_ratio :: "raster \<Rightarrow> raster \<Rightarrow> error + raster" where
  "log_ratio img1 img2 =
     (case broadcast2 fdiv img2 img1 of Inl e \<Rightarrow> Inl e | Inr q \<Rightarrow> Inr (ew1 flog q))"

text \<open>
  \<^verbatim>\<open>np.nanmean\<close> and \<^verbatim>\<open>np.nanstd\<close>: the NaN samples are left out; with no sample left the
  count is 0 and the result is \<open>0/0\<close>, a NaN.
\<close>

definition nanmean :: "raster \<Rightarrow> fl" where
  "nanmean d =
     (let vals = filter (\<lambda>x. x \<noteq> NaN) (concat d)
      in fdiv (fsum vals) (Fin (real (length vals))))"

definition nanstd :: "raster \<Rightarrow> fl" where
  "nanstd d =
     (let vals = filter (\<lambda>x. x \<noteq> NaN) (concat d);
          cnt = Fin (real (length vals));
          avg = fdiv (fsum vals) cnt
      in fsqrt (fdiv (fsum (map (\<lambda>x. fmul (fsub x avg) (fsub x avg)) vals)) cnt))"

text \<open>\<^verbatim>\<open>thr = np.nanmean(dIx) + THRSET*np.nanstd(dIx)\<close>\<close>

definition thr :: "real \<Rightarrow> raster \<Rightarrow> fl" where
  "thr k dIx = fadd (nanmean dIx) (fmul (Fin k) (nanstd dIx))"

text \<open>
  The two assignments \<^verbatim>\<open>dIx[dIx < thr] = 0.0\<close> and \<^verbatim>\<open>dIx[dIx > thr] = 1.0\<close>, in this
  order: the second one reads the array the first one has written.
\<close>

definition below_to_zero :: "fl \<Rightarrow> raster \<Rightarrow> raster" where
  "below_to_zero t d = ew1 (\<lambda>x. if flt x t then Fin 0 else x) d"

definition above_to_one :: "fl \<Rightarrow> raster \<Rightarrow> raster" where
  "above_to_one t d = ew1 (\<lambda>x. if fgt x t then Fin 1 else x) d"

definition thresholding :: "real \<Rightarrow> raster \<Rightarrow> raster" where
  "thresholding k dIx = (let t = thr k dIx in above_to_one t (below_to_zero t dIx))"

text \<open>Log ratio and thresholding of one pair of filtered images.\<close>

definition detect_change :: "real \<Rightarrow> raster \<Rightarrow> raster \<Rightarrow> error + raster" where
  "detect_change k img1 img2 =
     (case log_ratio img1 img2 of Inl e \<Rightarrow> Inl e | Inr dIx \<Rightarrow> Inr (thresholding k dIx))"

section \<open>The pair loop and its accumulator\<close>

text \<open>The body of the loop up to the opening: what one pair adds to the accumulator.\<close>

definition pair_map :: "config \<Rightarrow> raster \<Rightarrow> raster \<Rightarrow> error + raster" where
  "pair_map c f1 f2 =
     (let img1 = clipped_read c f1; img2 = clipped_read c f2
      in case detect_change (THRSET c) img1 img2 of
           Inl e \<Rightarrow> Inl e
         | Inr dIx \<Rightarrow> Inr (grey_opening dIx (MORPHWINSIZE c)))"

text \<open>
  \<^verbatim>\<open>cd += dIx\<close> adds in place: \<^verbatim>\<open>dIx\<close> is broadcast against \<^verbatim>\<open>cd\<close>, and the result must
  have the shape of \<^verbatim>\<open>cd\<close>.
\<close>

definition iadd :: "raster \<Rightarrow> raster \<Rightarrow> error + raster" where
  "iadd cd dIx =
     (case (broadcast_dim (length cd) (length dIx), broadcast_dim (width cd) (width dIx)) of
        (Some h, Some w) \<Rightarrow>
          if (h, w) = shape cd
          then Inr (map (\<lambda>i. map (\<lambda>j. fadd (bcast_at cd i j) (bcast_at dIx i j)) [0..<w]) [0..<h])
          else Inl ValueError
      | _ \<Rightarrow> Inl ValueError)"

text \<open>
  The loop \<^verbatim>\<open>for i in range(0, len(features) - 1)\<close>.  The accumulator \<^verbatim>\<open>cd\<close> is a variable
  that the first iteration binds: \<open>None\<close> is the unbound variable, and adding to it
  would raise \<^verbatim>\<open>NameError\<close>.
\<close>

fun pair_loop :: "config \<Rightarrow> nat \<Rightarrow> raster list \<Rightarrow> raster option \<Rightarrow> error + raster option" where
  "pair_loop c i (f1 # f2 # fs) cd =
     (case pair_map c f1 f2 of
        Inl e \<Rightarrow> Inl e
      | Inr dIx \<Rightarrow>
          if i = 0 then pair_loop c (Suc i) (f2 # fs) (Some dIx)
          else (case cd of
                  None \<Rightarrow> Inl NameError
                | Some h \<Rightarrow> (case iadd h dIx of
                              Inl e \<Rightarrow> Inl e
                            | Inr h' \<Rightarrow> pair_loop c (Suc i) (f2 # fs) (Some h'))))"
| "pair_loop c i fs cd = Inr cd"

definition pipeline :: "config \<Rightarrow> raster list \<Rightarrow> error + raster option" where
  "pipeline c features = pair_loop c 0 features None"



section \<open>Shapes and reference definitions\<close>

text \<open>An array of \<open>h\<close> rows that all have \<open>w\<close> samples.\<close>

definition has_shape :: "nat \<Rightarrow> nat \<Rightarrow> raster \<Rightarrow> bool" where
  "has_shape h w a = (length a = h \<and> (\<forall>r \<in> set a. length r = w))"

definition const_raster :: "nat \<Rightarrow> nat \<Rightarrow> fl \<Rightarrow> raster" where
  "const_raster h w v = replicate h (replicate w v)"

text \<open>
  Binarization from one untouched copy of the log-ratio array, as the design states it:
  \<^verbatim>\<open>output[p] = 1.0 if d[p] > threshold else 0.0\<close>.
\<close>

definition snapshot_binarize :: "fl \<Rightarrow> raster \<Rightarrow> raster" where
  "snapshot_binarize t d = ew1 (\<lambda>x. if fgt x t then Fin 1 else Fin 0) d"

text \<open>
  The elementwise sum of a list of maps of one shape: pixel \<open>(i, j)\<close> is the sum of the
  pixels \<open>(i, j)\<close> of the maps.
\<close>

definition sum_maps :: "raster list \<Rightarrow> raster" where
  "sum_maps ms =
     (case ms of
        [] \<Rightarrow> []
      | m # _ \<Rightarrow> map (\<lambda>i. map (\<lambda>j. fsum (map (\<lambda>a. a ! i ! j) ms)) [0..<width m])
                     [0..<length m])"

text \<open>The maps of the overlapping consecutive pairs of a sequence, each computed alone.\<close>

definition pair_maps :: "config \<Rightarrow> raster list \<Rightarrow> (error + raster) list" where
  "pair_maps c features = map (\<lambda>(f1, f2). pair_map c f1 f2) (zip features (tl features))"

text \<open>Rasters and settings of the examples.\<close>

definition flat0 :: raster where
  "flat0 = [[Fin 0, Fin 0], [Fin 0, Fin 0]]"

definition flat1 :: raster where
  "flat1 = [[Fin 1, Fin 1], [Fin 1, Fin 1]]"

definition flat2 :: raster where
  "flat2 = [[Fin 2, Fin 2], [Fin 2, Fin 2]]"

definition nans :: raster where
  "nans = [[NaN, NaN], [NaN, NaN]]"

definition nan_map :: raster where
  "nan_map = [[Fin 0, Fin 0, Fin 0, Fin 0, Fin 1, NaN],
              [Fin 0, Fin 0, Fin 0, Fin 0, NaN, Fin 0]]"

definition before28 :: raster where
  "before28 = [[Fin 2, Fin 8]]"

definition after12 :: raster where
  "after12 = [[Fin 1, Fin 2]]"

text \<open>The constants of the notebook: \<^verbatim>\<open>THRSET = 2\<close>, \<^verbatim>\<open>MORPHWINSIZE = 3\<close>, \<^verbatim>\<open>FILTSIZE = 3\<close>.\<close>

definition notebook_config :: config where
  "notebook_config = \<lparr>THRSET = 2, MORPHWINSIZE = 3, FILTSIZE = 3\<rparr>"

text \<open>The setting of the concrete scenario: both windows 1, multiplier 2.\<close>

definition scenario_config :: config where
  "scenario_config = \<lparr>THRSET = 2, MORPHWINSIZE = 1, FILTSIZE = 1\<rparr>"

section \<open>Arithmetic on samples\<close>

lemma is_fin_iff: "is_fin a \<longleftrightarrow> (\<exists>r. a = Fin r)"
  by (cases a) (simp_all add: is_fin_def)

lemma foldl_fadd_Fin: "foldl fadd (Fin a) (map Fin rs) = Fin (a + sum_list rs)"
  by (induction rs arbitrary: a) (simp_all add: add.assoc)

lemma fsum_Fin: "fsum (map Fin rs) = Fin (sum_list rs)"
  by (simp add: fsum_def foldl_fadd_Fin)

section \<open>Arrays and shapes\<close>

lemma map2_same: "map2 f xs xs = map (\<lambda>x. f x x) xs"
  by (simp add: zip_same_conv_map)

lemma ew2_same: "ew2 f a a = ew1 (\<lambda>x. f x x) a"
  by (simp add: ew2_def ew1_def map2_same)

lemma ew2_ew1_same: "ew2 f (ew1 g a) (ew1 h a) = ew1 (\<lambda>x. f (g x) (h x)) a"
  by (simp add: ew2_def ew1_def zip_map_map zip_same_conv_map comp_def)

lemma ew2_ew1_left: "ew2 f (ew1 g a) a = ew1 (\<lambda>x. f (g x) x) a"
  using ew2_ew1_same[of f g a "\<lambda>x. x"] by (simp add: ew1_def)

lemma ew2_ew1_right: "ew2 f a (ew1 h a) = ew1 (\<lambda>x. f x (h x)) a"
  using ew2_ew1_same[of f "\<lambda>x. x" a h] by (simp add: ew1_def)

lemma ew1_ew1: "ew1 f (ew1 g a) = ew1 (\<lambda>x. f (g x)) a"
  by (simp add: ew1_def comp_def)

lemma ew1_cong_fin:
  assumes "\<forall>x \<in> set (concat a). P x" and "\<And>x. P x \<Longrightarrow> f x = x"
  shows "ew1 f a = a"
  using assms by (auto simp: ew1_def map_idI)

lemma rect_has_shape: "rect img \<Longrightarrow> has_shape (length img) (width img) img"
  by (simp add: rect_def has_shape_def)

lemma has_shape_width: "has_shape h w a \<Longrightarrow> 0 < h \<Longrightarrow> width a = w"
  by (cases a) (auto simp: has_shape_def width_def)

lemma has_shape_nth: "has_shape h w a \<Longrightarrow> i < h \<Longrightarrow> length (a ! i) = w"
  by (auto simp: has_shape_def)

lemma has_shape_ew1: "has_shape h w a \<Longrightarrow> has_shape h w (ew1 f a)"
  by (auto simp: has_shape_def ew1_def)

lemma has_shape_ew2:
  "has_shape h w a \<Longrightarrow> has_shape h w b \<Longrightarrow> has_shape h w (ew2 f a b)"
  by (auto simp: has_shape_def ew2_def set_zip)

lemma nth_ew1:
  "has_shape h w a \<Longrightarrow> i < h \<Longrightarrow> j < w \<Longrightarrow> ew1 f a ! i ! j = f (a ! i ! j)"
  by (auto simp: has_shape_def ew1_def)

lemma nth_ew2:
  "has_shape h w a \<Longrightarrow> has_shape h w b \<Longrightarrow> i < h \<Longrightarrow> j < w \<Longrightarrow>
   ew2 f a b ! i ! j = f (a ! i ! j) (b ! i ! j)"
  by (auto simp: has_shape_def ew2_def)

lemma has_shape_along_axis0: "has_shape h w a \<Longrightarrow> has_shape h w (along_axis0 f a)"
proof (cases "h = 0")
  case True
  assume "has_shape h w a"
  with True show ?thesis by (simp add: has_shape_def along_axis0_def)
next
  case False
  assume s: "has_shape h w a"
  with False have "width a = w" by (simp add: has_shape_width)
  with s show ?thesis by (auto simp: has_shape_def along_axis0_def Let_def)
qed

lemma has_shape_along_axis1:
  assumes "\<And>l. length (f l) = length l" and "has_shape h w a"
  shows "has_shape h w (along_axis1 f a)"
  using assms by (auto simp: has_shape_def along_axis1_def)

lemma nth_along_axis0:
  assumes "has_shape h w a" and "i < h" and "j < w"
  shows "along_axis0 f a ! i ! j = f (map (\<lambda>r. r ! j) a) ! i"
proof -
  from assms have "width a = w" by (simp add: has_shape_width)
  with assms show ?thesis by (simp add: has_shape_def along_axis0_def Let_def)
qed

lemma nth_along_axis1:
  assumes "has_shape h w a" and "i < h"
  shows "along_axis1 f a ! i = f (a ! i)"
  using assms by (simp add: has_shape_def along_axis1_def)

lemma length_running: "length (running sz t l1 l2) = min (length l1) (length l2)"
  by (induction sz t l1 l2 rule: running.induct) (simp_all add: Let_def)

lemma length_uniform_filter1d: "0 < sz \<Longrightarrow> length (uniform_filter1d sz line) = length line"
  by (cases line) (simp_all add: uniform_filter1d_def Let_def length_running extend_line_def)

lemma has_shape_uniform_filter: "has_shape h w a \<Longrightarrow> has_shape h w (uniform_filter a sz)"
  by (simp add: uniform_filter_def has_shape_along_axis0 has_shape_along_axis1
      length_uniform_filter1d)

lemma length_minimum_filter1d: "length (minimum_filter1d sz origin line) = length line"
  by (simp add: minimum_filter1d_def)

lemma length_maximum_filter1d: "length (maximum_filter1d sz origin line) = length line"
  by (simp add: maximum_filter1d_def)

lemma has_shape_min_or_max_filter:
  "has_shape h w a \<Longrightarrow> has_shape h w (min_or_max_filter a sz origin minimum)"
  by (simp add: min_or_max_filter_def Let_def has_shape_along_axis0 has_shape_along_axis1
      length_minimum_filter1d length_maximum_filter1d)

lemma has_shape_grey_opening: "has_shape h w a \<Longrightarrow> has_shape h w (grey_opening a sz)"
  by (simp add: grey_opening_def grey_erosion_def grey_dilation_def has_shape_min_or_max_filter)

lemma has_shape_img_mean: "has_shape h w a \<Longrightarrow> has_shape h w (img_mean a sz)"
  by (simp add: img_mean_def has_shape_uniform_filter)

lemma has_shape_img_variance: "has_shape h w a \<Longrightarrow> has_shape h w (img_variance a sz)"
  by (simp add: img_variance_def img_sqr_mean_def has_shape_img_mean has_shape_uniform_filter
      has_shape_ew1 has_shape_ew2)

lemma has_shape_img_weights: "has_shape h w a \<Longrightarrow> has_shape h w (img_weights a sz)"
  by (simp add: img_weights_def has_shape_img_variance has_shape_ew1 has_shape_ew2)

lemma has_shape_lee_filter: "has_shape h w a \<Longrightarrow> has_shape h w (lee_filter a sz)"
  by (simp add: lee_filter_def has_shape_img_weights has_shape_img_mean has_shape_ew2)

section \<open>The speckle filter\<close>

text \<open>Evaluation of the filters on the example rasters.\<close>

lemmas lee_defs = lee_filter_def img_mean_def img_weights_def img_variance_def img_sqr_mean_def
  overall_variance_def variance_def mean_all_def uniform_filter_def ew1_def ew2_def fsum_def
  fsub_def sgn_inf_def

lemmas filter_defs = along_axis0_def along_axis1_def uniform_filter1d_def extend_line_def
  reflect_def width_def upt_conv_Cons Let_def

lemmas change_defs = detect_change_def log_ratio_def broadcast2_def broadcast_dim_def
  bcast_at_def thresholding_def thr_def nanmean_def nanstd_def below_to_zero_def
  above_to_one_def fgt_def Let_def sgn_inf_def

lemmas morph_defs = grey_opening_def grey_erosion_def grey_dilation_def min_or_max_filter_def
  minimum_filter1d_def maximum_filter1d_def window_def fold1_def fmin_def fmax_def

lemma lee_flat1_1: "lee_filter flat1 1 = nans"
  by (simp add: flat1_def nans_def lee_defs)

lemma lee_flat2_1: "lee_filter flat2 1 = nans"
  by (simp add: flat2_def nans_def lee_defs)

lemma lee_flat0_3: "lee_filter flat0 3 = nans"
  by (simp add: flat0_def nans_def lee_defs filter_defs)

lemma fdiv_zero_not_fin: "\<not> is_fin (fdiv v (Fin 0))"
  by (cases v) (simp_all add: is_fin_def sgn_inf_def)

lemma fmul_not_fin: "\<not> is_fin a \<Longrightarrow> \<not> is_fin (fmul a b)"
  by (cases a; cases b) (simp_all add: is_fin_def sgn_inf_def)

lemma fadd_not_fin: "\<not> is_fin b \<Longrightarrow> \<not> is_fin (fadd a b)"
  by (cases a; cases b) (simp_all add: is_fin_def)

lemma lee_filter_with_exact:
  "lee_filter img sz = lee_filter_with (\<lambda>x. fmul x x) variance img sz"
  by (simp add: lee_filter_def lee_filter_with_def img_mean_def img_weights_def
      img_variance_def img_sqr_mean_def overall_variance_def Let_def)

text \<open>
  C4, as the claim states it, fails on a flat raster: with window size 1 the local
  variance is 0 everywhere, the overall variance of the raster of ones is 0 as well, and
  the weight \<open>0/0\<close> turns every output sample into NaN.
\<close>

theorem lee_filter_flat_not_identity: "lee_filter flat1 1 \<noteq> flat1"
  unfolding lee_flat1_1 by (simp add: nans_def flat1_def)

text \<open>
  C4 (amended): the speckle filter with window size 1 returns its input on every raster
  whose samples are finite, whose squares are finite, and whose overall variance, as
  \<^verbatim>\<open>variance(img)\<close> returns it, is a finite number other than zero.  This holds whatever
  the square and the variance return otherwise: on such a raster the local variance is
  \<open>s - s = 0\<close>, the weight is \<open>0 / (0 + v) = 0\<close> and the output is \<open>x + 0 * (x - x) = x\<close>, and
  none of these steps rounds.
\<close>

theorem lee_filter_identity:
  assumes fin: "\<forall>x \<in> set (concat img). is_fin x \<and> is_fin (sq x)"
    and v: "var img = Fin v" and nz: "v \<noteq> 0"
  shows "lee_filter_with sq var img 1 = img"
proof -
  have "lee_filter_with sq var img 1 =
        ew1 (\<lambda>x. fadd x (fmul (fdiv (fsub (sq x) (sq x))
                                     (fadd (fsub (sq x) (sq x)) (Fin v)))
                               (fsub x x))) img"
    by (simp add: lee_filter_with_def Let_def uniform_filter_def v ew2_same ew2_ew1_same
        ew1_ew1 ew2_ew1_right ew2_ew1_left)
  also have "\<dots> = img"
  proof (rule ew1_cong_fin[OF fin])
    fix x assume "is_fin x \<and> is_fin (sq x)"
    then obtain r s where "x = Fin r" "sq x = Fin s" by (auto simp: is_fin_iff)
    then show "fadd x (fmul (fdiv (fsub (sq x) (sq x))
                             (fadd (fsub (sq x) (sq x)) (Fin v))) (fsub x x)) = x"
      using nz by (simp add: fsub_def)
  qed
  finally show ?thesis .
qed

theorem lee_filter_identity_witness:
  "lee_filter_with (\<lambda>x. fmul x x) variance [[Fin 1, Fin 2], [Fin 3, Fin 4]] 1
     = [[Fin 1, Fin 2], [Fin 3, Fin 4]]"
proof -
  let ?img = "[[Fin 1, Fin 2], [Fin 3, Fin 4]]"
  have fin: "\<forall>x \<in> set (concat ?img). is_fin x \<and> is_fin (fmul x x)"
    by (simp add: is_fin_def)
  have v: "variance ?img = Fin (5 / 4)"
    by (simp add: variance_def mean_all_def fsum_def fsub_def)
  have nz: "(5 / 4 :: real) \<noteq> 0"
    by simp
  show ?thesis
    using lee_filter_identity[of ?img "\<lambda>x. fmul x x" variance, OF fin v nz] .
qed

text \<open>
  C5, as the claim states it, fails on the flat raster \<open>flat1\<close> with the notebook's
  window size 3: at pixel \<open>(0, 0)\<close> the denominator is zero, the weight is NaN and not 0,
  and the output is NaN and not the local mean 1.
\<close>

theorem lee_filter_flat_weight_nan:
  "fadd (img_variance flat1 3 ! 0 ! 0) (overall_variance flat1) = Fin 0 \<and>
   img_weights flat1 3 ! 0 ! 0 = NaN \<and>
   img_mean flat1 3 ! 0 ! 0 = Fin 1 \<and>
   lee_filter flat1 3 ! 0 ! 0 = NaN"
  by (simp add: flat1_def lee_defs filter_defs)

text \<open>
  C5 (amended): the filter has no guard for a zero denominator.  Whenever
  \<open>img_variance + overall_variance\<close> is zero at a pixel, the division is carried out all
  the same: the weight at that pixel is NaN or an infinity, never a finite number such
  as 0, and the output at that pixel is NaN or an infinity as well.
\<close>

theorem lee_filter_zero_denominator:
  assumes r: "rect img" and i: "i < length img" and j: "j < width img"
    and den: "fadd (img_variance img sz ! i ! j) (overall_variance img) = Fin 0"
  shows "\<not> is_fin (img_weights img sz ! i ! j) \<and> \<not> is_fin (lee_filter img sz ! i ! j)"
proof -
  let ?h = "length img" and ?w = "width img"
  have s: "has_shape ?h ?w img" using r by (rule rect_has_shape)
  have w_eq: "img_weights img sz ! i ! j =
              fdiv (img_variance img sz ! i ! j) (Fin 0)"
    using den i j
    by (simp add: img_weights_def
        nth_ew2[OF has_shape_img_variance[OF s] has_shape_ew1[OF has_shape_img_variance[OF s]]]
        nth_ew1[OF has_shape_img_variance[OF s]])
  then have nf: "\<not> is_fin (img_weights img sz ! i ! j)"
    by (simp add: fdiv_zero_not_fin)
  have "lee_filter img sz ! i ! j =
        fadd (img_mean img sz ! i ! j)
             (fmul (img_weights img sz ! i ! j) (fsub (img ! i ! j) (img_mean img sz ! i ! j)))"
    using i j
    by (simp add: lee_filter_def
        nth_ew2[OF has_shape_img_mean[OF s]
                   has_shape_ew2[OF has_shape_img_weights[OF s]
                                    has_shape_ew2[OF s has_shape_img_mean[OF s]]]]
        nth_ew2[OF has_shape_img_weights[OF s] has_shape_ew2[OF s has_shape_img_mean[OF s]]]
        nth_ew2[OF s has_shape_img_mean[OF s]])
  with nf show ?thesis
    by (simp add: fmul_not_fin fadd_not_fin)
qed

theorem lee_filter_zero_denominator_witness:
  "\<not> is_fin (img_weights flat1 3 ! 0 ! 0) \<and> \<not> is_fin (lee_filter flat1 3 ! 0 ! 0)"
proof -
  have r: "rect flat1" by (simp add: rect_def flat1_def width_def)
  have i: "0 < length flat1" by (simp add: flat1_def)
  have j: "0 < width flat1" by (simp add: flat1_def width_def)
  have den: "fadd (img_variance flat1 3 ! 0 ! 0) (overall_variance flat1) = Fin 0"
    by (simp add: flat1_def lee_defs filter_defs)
  show ?thesis
    using lee_filter_zero_denominator[OF r i j den] .
qed

section \<open>Log ratio, thresholding and the loop\<close>

lemma nth_ew1_plain:
  "i < length a \<Longrightarrow> j < length (a ! i) \<Longrightarrow> ew1 f a ! i ! j = f (a ! i ! j)"
  by (simp add: ew1_def)

lemma thresholding_ew1:
  "thresholding k d =
   ew1 (\<lambda>x. if fgt (if flt x (thr k d) then Fin 0 else x) (thr k d) then Fin 1
             else if flt x (thr k d) then Fin 0 else x) d"
  by (simp add: thresholding_def above_to_one_def below_to_zero_def ew1_ew1 Let_def)

lemma two_pass_nan:
  "((if fgt (if flt x t then Fin 0 else x) t then Fin 1
     else if flt x t then Fin 0 else x) = NaN) = (x = NaN)"
  by (cases x; cases t) (simp_all add: fgt_def)

lemma bcast_at_in_range: "i < length a \<Longrightarrow> j < width a \<Longrightarrow> bcast_at a i j = a ! i ! j"
  by (auto simp: bcast_at_def)

lemma broadcast_dim_same: "broadcast_dim n n = Some n"
  by (simp add: broadcast_dim_def)

lemma map2_nth_rows:
  assumes "length xs = w" and "length ys = w"
  shows "map (\<lambda>j. f (xs ! j) (ys ! j)) [0..<w] = map2 f xs ys"
  using assms by (intro nth_equalityI) simp_all

lemma ew2_by_index:
  assumes a: "has_shape h w a" and b: "has_shape h w b"
  shows "map (\<lambda>i. map (\<lambda>j. f (bcast_at a i j) (bcast_at b i j)) [0..<width a]) [0..<h]
         = ew2 f a b"
proof (cases "h = 0")
  case True
  with a b show ?thesis by (simp add: has_shape_def ew2_def)
next
  case False
  then have wa: "width a = w" and wb: "width b = w"
    using a b by (simp_all add: has_shape_width)
  have la: "length a = h" and lb: "length b = h"
    using a b by (simp_all add: has_shape_def)
  show ?thesis
    unfolding ew2_def
  proof (rule nth_equalityI)
    show "length (map (\<lambda>i. map (\<lambda>j. f (bcast_at a i j) (bcast_at b i j)) [0..<width a]) [0..<h])
          = length (map2 (map2 f) a b)"
      by (simp add: la lb)
  next
    fix i
    assume "i < length (map (\<lambda>i. map (\<lambda>j. f (bcast_at a i j) (bcast_at b i j)) [0..<width a]) [0..<h])"
    then have i: "i < h" by simp
    have "map (\<lambda>j. f (bcast_at a i j) (bcast_at b i j)) [0..<w]
          = map (\<lambda>j. f (a ! i ! j) (b ! i ! j)) [0..<w]"
      using i by (simp add: bcast_at_in_range la lb wa wb)
    also have "\<dots> = map2 f (a ! i) (b ! i)"
      using i by (intro map2_nth_rows has_shape_nth[OF a] has_shape_nth[OF b])
    finally show "map (\<lambda>i. map (\<lambda>j. f (bcast_at a i j) (bcast_at b i j)) [0..<width a]) [0..<h] ! i
                  = map2 (map2 f) a b ! i"
      using i by (simp add: wa la lb)
  qed
qed

lemma has_shape_same_width:
  assumes a: "has_shape h w a" and b: "has_shape h w b"
  shows "width a = width b"
proof (cases "h = 0")
  case True
  with a b show ?thesis by (simp add: has_shape_def)
next
  case False
  with a b show ?thesis by (simp add: has_shape_width)
qed

lemma broadcast2_same_shape:
  assumes a: "has_shape h w a" and b: "has_shape h w b"
  shows "broadcast2 f a b = Inr (ew2 f a b)"
proof -
  have "length a = h" "length b = h" using a b by (simp_all add: has_shape_def)
  moreover have "width a = width b"
    using a b by (rule has_shape_same_width)
  ultimately show ?thesis
    using ew2_by_index[OF a b, of f] by (simp add: broadcast2_def broadcast_dim_same)
qed

lemma iadd_same_shape:
  assumes a: "has_shape h w a" and b: "has_shape h w b"
  shows "iadd a b = Inr (ew2 fadd a b)"
proof -
  have "length a = h" "length b = h" using a b by (simp_all add: has_shape_def)
  moreover have "width a = width b"
    using a b by (rule has_shape_same_width)
  ultimately show ?thesis
    using ew2_by_index[OF a b, of fadd] by (simp add: iadd_def broadcast_dim_same shape_def)
qed

lemma log_ratio_same_shape:
  assumes "has_shape h w a" and "has_shape h w b"
  shows "log_ratio a b = Inr (ew1 flog (ew2 fdiv b a))"
  using broadcast2_same_shape[OF assms(2) assms(1)] by (simp add: log_ratio_def)

lemma has_shape_thresholding: "has_shape h w d \<Longrightarrow> has_shape h w (thresholding k d)"
  by (simp add: thresholding_ew1 has_shape_ew1)

lemma pair_map_same_shape:
  assumes a: "has_shape h w a" and b: "has_shape h w b"
  shows "\<exists>m. pair_map c a b = Inr m \<and> has_shape h w m"
proof -
  have la: "has_shape h w (lee_filter a (FILTSIZE c))"
    and lb: "has_shape h w (lee_filter b (FILTSIZE c))"
    using a b by (simp_all add: has_shape_lee_filter)
  show ?thesis
    by (simp add: pair_map_def clipped_read_def detect_change_def Let_def
        log_ratio_same_shape[OF la lb] has_shape_grey_opening has_shape_thresholding
        has_shape_ew1 has_shape_ew2 la lb)
qed

lemma detect_nans: "detect_change k nans nans = Inr nans"
  by (simp add: nans_def change_defs ew1_def fsum_def width_def upt_conv_Cons)

lemma thr_nans: "thr k nans = NaN"
  by (simp add: nans_def change_defs ew1_def fsum_def width_def upt_conv_Cons)

lemma log_ratio_nans: "log_ratio nans nans = Inr nans"
  by (simp add: nans_def change_defs ew1_def fsum_def width_def upt_conv_Cons)

lemma opening_nans_1: "grey_opening nans 1 = nans"
  by (simp add: morph_defs)

lemma opening_nans_3: "grey_opening nans 3 = nans"
  by (simp add: nans_def morph_defs filter_defs)

lemma pipeline_scenario: "pipeline scenario_config [flat1, flat2] = Inr (Some nans)"
  by (simp add: scenario_config_def pipeline_def pair_map_def clipped_read_def lee_flat1_1
      lee_flat2_1 detect_nans opening_nans_1 del: One_nat_def)

lemma pipeline_nodata: "pipeline notebook_config [flat0, flat0] = Inr (Some nans)"
  by (simp add: notebook_config_def pipeline_def pair_map_def clipped_read_def lee_flat0_3
      detect_nans opening_nans_3)

lemma detect_change_unfiltered: "detect_change 2 flat1 flat2 = Inr [[Fin (ln 2), Fin (ln 2)], [Fin (ln 2), Fin (ln 2)]]"
  by (simp add: flat1_def flat2_def change_defs ew1_def fsum_def width_def upt_conv_Cons fsub_def)

text \<open>
  C3, as the claim states it, fails.  Two filtered images with a zero sample at the same
  pixel give the log ratio \<open>ln (0/0)\<close> there, a NaN, and thresholding leaves it a NaN and
  does not make it 0.  With the constants of the notebook, a pair of rasters that are
  nodata everywhere (all samples 0) gives a heatmap that is NaN everywhere.
\<close>

theorem nodata_heatmap_nan:
  "detect_change 2 [[Fin 0, Fin 1], [Fin 1, Fin 1]] [[Fin 0, Fin 1], [Fin 1, Fin 1]]
     = Inr [[NaN, Fin 0], [Fin 0, Fin 0]] \<and>
   pipeline notebook_config [flat0, flat0] = Inr (Some [[NaN, NaN], [NaN, NaN]])"
  unfolding pipeline_nodata
  by (simp add: nans_def change_defs ew1_def fsum_def width_def upt_conv_Cons fsub_def)

text \<open>
  C3 (amended): thresholding has no NaN policy.  A pixel of the binarized change map is
  NaN exactly when the same pixel of the log-ratio array is NaN: NaN pixels stay NaN (they
  are not mapped to 0.0), and no other pixel becomes NaN.
\<close>

theorem thresholding_keeps_nan:
  assumes "i < length d" and "j < length (d ! i)"
  shows "(thresholding k d ! i ! j = NaN) = (d ! i ! j = NaN)"
  using assms by (simp add: thresholding_ew1 nth_ew1_plain two_pass_nan)

theorem thresholding_keeps_nan_witness:
  "(thresholding 2 [[NaN, Fin 1]] ! 0 ! 0 = NaN) = ([[NaN, Fin 1]] ! 0 ! 0 = NaN)"
  using thresholding_keeps_nan[of 0 "[[NaN, Fin 1]]" 0 2] by simp

text \<open>
  C6, as the claim states it, fails: the log ratio is a numpy division, which broadcasts.
  A filtered image of one row against one of two rows (heights 1 and 2) raises nothing
  and yields a change map of two rows.
\<close>

theorem detect_change_broadcasts:
  "detect_change 2 [[Fin 1, Fin 1]] [[Fin 1, Fin 1], [Fin 1, Fin 1]]
     = Inr [[Fin 0, Fin 0], [Fin 0, Fin 0]]"
  by (simp add: change_defs ew1_def fsum_def width_def upt_conv_Cons fsub_def)

text \<open>
  C6 (amended): the log ratio and thresholding of two rasters whose heights differ with
  neither of them 1, or whose widths differ with neither of them 1, raise
  \<^verbatim>\<open>ValueError\<close> and return no change map; for two rasters of identical shape they raise
  nothing and return a change map.
\<close>

theorem detect_change_shapes:
  "((length a \<noteq> length b \<and> length a \<noteq> 1 \<and> length b \<noteq> 1) \<or>
    (width a \<noteq> width b \<and> width a \<noteq> 1 \<and> width b \<noteq> 1)
      \<longrightarrow> detect_change k a b = Inl ValueError) \<and>
   (shape a = shape b \<longrightarrow> (\<exists>m. detect_change k a b = Inr m))"
  by (auto simp: detect_change_def log_ratio_def broadcast2_def broadcast_dim_def shape_def
      split: option.splits)

theorem detect_change_shapes_witness:
  "detect_change 2 [[Fin 1, Fin 2, Fin 3]] [[Fin 1, Fin 2]] = Inl ValueError \<and>
   (\<exists>m. detect_change 2 [[Fin 1]] [[Fin 2]] = Inr m)"
  using detect_change_shapes[of "[[Fin 1, Fin 2, Fin 3]]" "[[Fin 1, Fin 2]]" 2]
    detect_change_shapes[of "[[Fin 1]]" "[[Fin 2]]" 2]
  by (simp add: width_def shape_def)




text \<open>
  C2, as the claim states it, fails: for \<open>before = flat1\<close>, \<open>after = flat2\<close>, both windows 1
  and multiplier 2, the heatmap is not all zeros.  (Without the speckle filter the change
  map would not be all zeros either.)
\<close>

theorem concrete_scenario_not_zeros:
  "pipeline scenario_config [flat1, flat2] \<noteq> Inr (Some flat0) \<and>
   detect_change 2 flat1 flat2 \<noteq> Inr flat0"
  unfolding pipeline_scenario detect_change_unfiltered
  by (simp add: nans_def flat0_def)

text \<open>
  C2 (amended): for \<open>before = [[1,1],[1,1]]\<close>, \<open>after = [[2,2],[2,2]]\<close>, speckle window 1,
  multiplier 2 and morphological window 1, the speckle filter turns both flat rasters
  into NaN everywhere (weight \<open>0/0\<close>), the log ratio is uniformly NaN, the threshold is
  NaN, the change map is all NaN, and accumulating this single pair over the 2-raster
  sequence yields a heatmap that is all NaN.
\<close>

theorem concrete_scenario_all_nan:
  "clipped_read scenario_config flat1 = nans \<and>
   clipped_read scenario_config flat2 = nans \<and>
   log_ratio nans nans = Inr nans \<and>
   thr 2 nans = NaN \<and>
   detect_change 2 nans nans = Inr nans \<and>
   pipeline scenario_config [flat1, flat2] = Inr (Some nans)"
proof -
  have "FILTSIZE scenario_config = 1"
    by (simp add: scenario_config_def)
  then show ?thesis
    by (simp add: clipped_read_def lee_flat1_1 lee_flat2_1 log_ratio_nans thr_nans detect_nans
        pipeline_scenario del: One_nat_def)
qed

section \<open>Thresholding at a negative threshold\<close>

lemma nanmean_two: "nanmean [[Fin x, Fin y]] = Fin ((x + y) / 2)"
  by (simp add: nanmean_def fsum_def)

lemma nanstd_two:
  "nanstd [[Fin x, Fin y]] = Fin (\<bar>x - y\<bar> / 2)"
proof -
  have "((x - (x + y) / 2) * (x - (x + y) / 2) + (y - (x + y) / 2) * (y - (x + y) / 2)) / 2
        = (\<bar>x - y\<bar> / 2)\<^sup>2"
    by (simp add: power2_eq_square field_simps)
  then have "sqrt (((x - (x + y) / 2) * (x - (x + y) / 2)
                    + (y - (x + y) / 2) * (y - (x + y) / 2)) / 2) = \<bar>x - y\<bar> / 2"
    by (simp add: real_sqrt_unique)
  moreover have "0 \<le> ((x - (x + y) / 2) * (x - (x + y) / 2)
                    + (y - (x + y) / 2) * (y - (x + y) / 2)) / 2"
    by simp
  ultimately show ?thesis
    by (simp add: nanstd_def fsum_def fsub_def Let_def)
qed

lemma thr_two: "thr k [[Fin x, Fin y]] = Fin ((x + y) / 2 + k * (\<bar>x - y\<bar> / 2))"
  by (simp add: thr_def nanmean_two nanstd_two)

lemma ln_half: "ln (1 / 2 :: real) = - ln 2"
  by (simp add: ln_div)

lemma ln_quarter: "ln (1 / 4 :: real) = - (2 * ln 2)"
proof -
  have "ln (4 :: real) = ln (2 ^ 2)" by simp
  also have "\<dots> = 2 * ln 2" by (simp only: ln_realpow)
  finally show ?thesis by (simp add: ln_div)
qed

lemma lee_before28_1: "lee_filter before28 1 = before28"
  by (simp add: before28_def lee_defs)

lemma lee_after12_1: "lee_filter after12 1 = after12"
  by (simp add: after12_def lee_defs)

lemma lee_before28_3: "lee_filter before28 3 = [[Fin (52 / 17), Fin (118 / 17)]]"
  by (simp add: before28_def lee_defs filter_defs)

lemma lee_after12_3: "lee_filter after12 3 = [[Fin (20 / 17), Fin (31 / 17)]]"
  by (simp add: after12_def lee_defs filter_defs)

lemma log_ratio_row2:
  "log_ratio [[Fin a, Fin b]] [[Fin c, Fin d]] = Inr [[flog (fdiv (Fin c) (Fin a)), flog (fdiv (Fin d) (Fin b))]]"
  by (simp add: log_ratio_def broadcast2_def broadcast_dim_def bcast_at_def width_def
      ew1_def upt_conv_Cons)

lemma two_below_negative:
  assumes "y < x" and "3 * x < y"
  shows "thr 2 [[Fin x, Fin y]] = Fin ((3 * x - y) / 2)"
    and "thresholding 2 [[Fin x, Fin y]] = [[Fin 1, Fin 1]]"
    and "snapshot_binarize (thr 2 [[Fin x, Fin y]]) [[Fin x, Fin y]] = [[Fin 0, Fin 0]]"
proof -
  show t: "thr 2 [[Fin x, Fin y]] = Fin ((3 * x - y) / 2)"
    using assms(1) by (simp add: thr_two field_simps)
  show "thresholding 2 [[Fin x, Fin y]] = [[Fin 1, Fin 1]]"
    unfolding thresholding_def Let_def t using assms
    by (simp add: below_to_zero_def above_to_one_def ew1_def fgt_def)
  show "snapshot_binarize (thr 2 [[Fin x, Fin y]]) [[Fin x, Fin y]] = [[Fin 0, Fin 0]]"
    unfolding t using assms by (simp add: snapshot_binarize_def ew1_def fgt_def)
qed

lemma ln_order_sizes1: "ln (1 / 4 :: real) < ln (1 / 2)" "3 * ln (1 / 2 :: real) < ln (1 / 4)"
  using ln_half ln_quarter by simp_all

lemma ln_order_sizes3:
  "ln (31 / 118 :: real) < ln (5 / 13)" "3 * ln (5 / 13 :: real) < ln (31 / 118)"
proof -
  show "ln (31 / 118 :: real) < ln (5 / 13)" by simp
  have "3 * ln (5 / 13 :: real) = ln ((5 / 13) ^ 3)"
    by (simp only: ln_realpow)
  also have "\<dots> < ln (31 / 118)"
    by (subst ln_less_cancel_iff) (simp_all add: power3_eq_cube)
  finally show "3 * ln (5 / 13 :: real) < ln (31 / 118)" .
qed

lemma opening_row11: "grey_opening [[Fin 1, Fin 1]] 3 = [[Fin 1, Fin 1]]"
  by (simp add: morph_defs filter_defs)

text \<open>
  C1 states that binarization is computed from one untouched snapshot of the log-ratio
  array: a pixel becomes 1.0 if its original value is strictly above the threshold and 0.0
  otherwise, also when the threshold is negative.  The two assignments of the notebook do
  not do this.  Take the two rasters \<open>before28 = [[2, 8]]\<close> and \<open>after12 = [[1, 2]]\<close>, where
  every sample decreases.  With both windows 1 the log ratio is \<open>[[ln (1/2), ln (1/4)]]\<close>
  and the threshold is negative; both pixels are below it, the first assignment sets them
  to 0, the second assignment reads these zeros, finds them above the threshold and sets
  both to 1, where the snapshot semantics gives 0 for both.  The heatmap is \<open>[[1, 1]]\<close>,
  and it is the same with the constants of the notebook (both windows 3).
\<close>

theorem thresholding_negative_threshold:
  "pipeline notebook_config [before28, after12] = Inr (Some [[Fin 1, Fin 1]]) \<and>
   pipeline scenario_config [before28, after12] = Inr (Some [[Fin 1, Fin 1]]) \<and>
   log_ratio (clipped_read scenario_config before28) (clipped_read scenario_config after12)
     = Inr [[Fin (ln (1 / 2)), Fin (ln (1 / 4))]] \<and>
   thr 2 [[Fin (ln (1 / 2)), Fin (ln (1 / 4))]] = Fin ((3 * ln (1 / 2) - ln (1 / 4)) / 2) \<and>
   (3 * ln (1 / 2) - ln (1 / 4)) / 2 < (0 :: real) \<and>
   thresholding 2 [[Fin (ln (1 / 2)), Fin (ln (1 / 4))]] = [[Fin 1, Fin 1]] \<and>
   snapshot_binarize (thr 2 [[Fin (ln (1 / 2)), Fin (ln (1 / 4))]])
     [[Fin (ln (1 / 2)), Fin (ln (1 / 4))]] = [[Fin 0, Fin 0]]"
proof -
  note s1 = two_below_negative[OF ln_order_sizes1]
  note s3 = two_below_negative[OF ln_order_sizes3]
  have f1: "FILTSIZE scenario_config = 1" "MORPHWINSIZE scenario_config = 1"
    "THRSET scenario_config = 2"
    by (simp_all add: scenario_config_def)
  have f3: "FILTSIZE notebook_config = 3" "MORPHWINSIZE notebook_config = 3"
    "THRSET notebook_config = 2"
    by (simp_all add: notebook_config_def)
  have lr1: "log_ratio (lee_filter before28 1) (lee_filter after12 1)
             = Inr [[Fin (ln (1 / 2)), Fin (ln (1 / 4))]]"
    unfolding lee_before28_1 lee_after12_1
    unfolding before28_def after12_def log_ratio_row2 by simp
  have lr3: "log_ratio (lee_filter before28 3) (lee_filter after12 3)
             = Inr [[Fin (ln (5 / 13)), Fin (ln (31 / 118))]]"
    unfolding lee_before28_3 lee_after12_3 log_ratio_row2 by simp
  have o1: "grey_opening [[Fin 1, Fin 1]] 1 = [[Fin 1, Fin 1]]"
    by (simp add: morph_defs)
  have p1: "pair_map scenario_config before28 after12 = Inr [[Fin 1, Fin 1]]"
    unfolding pair_map_def clipped_read_def Let_def f1 detect_change_def lr1
    by (simp only: sum.case s1 o1)
  have p3: "pair_map notebook_config before28 after12 = Inr [[Fin 1, Fin 1]]"
    unfolding pair_map_def clipped_read_def Let_def f3 detect_change_def lr3
    by (simp only: sum.case s3 opening_row11)
  have neg: "(3 * ln (1 / 2) - ln (1 / 4)) / 2 < (0 :: real)"
    using ln_order_sizes1 by simp
  have pipe1: "pipeline scenario_config [before28, after12] = Inr (Some [[Fin 1, Fin 1]])"
    by (simp add: pipeline_def p1)
  have pipe3: "pipeline notebook_config [before28, after12] = Inr (Some [[Fin 1, Fin 1]])"
    by (simp add: pipeline_def p3)
  have lr1': "log_ratio (clipped_read scenario_config before28)
                (clipped_read scenario_config after12)
              = Inr [[Fin (ln (1 / 2)), Fin (ln (1 / 4))]]"
    unfolding clipped_read_def f1 by (rule lr1)
  from pipe3 pipe1 lr1' s1 neg show ?thesis
    by (intro conjI)
qed

section \<open>The zero-change baseline\<close>

lemma reflect_less: "0 < n \<Longrightarrow> reflect n k < n"
proof -
  assume n: "0 < n"
  let ?m = "k mod (2 * int n)"
  have "0 \<le> ?m" and "?m < 2 * int n"
    using n by simp_all
  then show ?thesis
    using n by (auto simp: reflect_def Let_def)
qed

lemma const_rasterI:
  assumes "has_shape h w a" and "\<forall>x \<in> set (concat a). x = v"
  shows "a = const_raster h w v"
proof -
  have "r = replicate w v" if "r \<in> set a" for r
    using assms that by (intro replicate_eqI) (auto simp: has_shape_def)
  moreover have "length a = h"
    using assms(1) by (simp add: has_shape_def)
  ultimately show ?thesis
    unfolding const_raster_def by (rule replicate_eqI[rotated])
qed

lemma ew1_const:
  assumes "has_shape h w a" and "\<forall>x \<in> set (concat a). f x = v"
  shows "ew1 f a = const_raster h w v"
  using assms(2) by (intro const_rasterI has_shape_ew1 assms(1)) (auto simp: ew1_def)

lemma concat_const_raster: "concat (const_raster h w v) = replicate (h * w) v"
  by (induction h) (simp_all add: const_raster_def replicate_add)

lemma fsum_zeros: "fsum (replicate n (Fin 0)) = Fin 0"
  using fsum_Fin[of "replicate n 0"] by (simp add: sum_list_replicate)

lemma nanmean_zeros: "0 < h \<Longrightarrow> 0 < w \<Longrightarrow> nanmean (const_raster h w (Fin 0)) = Fin 0"
  by (simp add: nanmean_def concat_const_raster fsum_zeros)

lemma nanstd_zeros: "0 < h \<Longrightarrow> 0 < w \<Longrightarrow> nanstd (const_raster h w (Fin 0)) = Fin 0"
  by (simp add: nanstd_def concat_const_raster fsum_zeros fsub_def Let_def)

lemma thr_zeros: "0 < h \<Longrightarrow> 0 < w \<Longrightarrow> thr k (const_raster h w (Fin 0)) = Fin 0"
  by (simp add: thr_def nanmean_zeros nanstd_zeros)

lemma ew1_const_raster: "ew1 f (const_raster h w v) = const_raster h w (f v)"
  by (simp add: ew1_def const_raster_def)

lemma thresholding_zeros:
  "0 < h \<Longrightarrow> 0 < w \<Longrightarrow>
   thresholding k (const_raster h w (Fin 0)) = const_raster h w (Fin 0)"
  by (simp add: thresholding_ew1 thr_zeros ew1_const_raster fgt_def)

lemma foldl_fmin_const: "foldl fmin v (replicate n v) = v"
  by (induction n) (simp_all add: fmin_def)

lemma foldl_fmax_const: "foldl fmax v (replicate n v) = v"
  by (induction n) (simp_all add: fmax_def)

lemma window_const:
  "0 < n \<Longrightarrow> window sz origin (replicate n v) i = replicate sz v"
  by (simp add: window_def reflect_less map_replicate_const)

lemma fold1_const: "0 < sz \<Longrightarrow> fold1 f (replicate sz v) = foldl f v (replicate (sz - 1) v)"
  by (cases sz) (simp_all add: fold1_def)

lemma minimum_filter1d_const:
  "0 < sz \<Longrightarrow> minimum_filter1d sz origin (replicate n v) = replicate n v"
  by (cases "n = 0")
     (simp_all add: minimum_filter1d_def window_const fold1_const foldl_fmin_const
        map_replicate_const)

lemma maximum_filter1d_const:
  "0 < sz \<Longrightarrow> maximum_filter1d sz origin (replicate n v) = replicate n v"
  by (cases "n = 0")
     (simp_all add: maximum_filter1d_def window_const fold1_const foldl_fmax_const
        map_replicate_const)

lemma along_axis1_const:
  assumes "f (replicate w v) = replicate w v"
  shows "along_axis1 f (const_raster h w v) = const_raster h w v"
  using assms by (simp add: along_axis1_def const_raster_def)

lemma along_axis0_const:
  assumes f: "f (replicate h v) = replicate h v"
  shows "along_axis0 f (const_raster h w v) = const_raster h w v"
proof (cases "h = 0")
  case True
  then show ?thesis by (simp add: along_axis0_def const_raster_def)
next
  case False
  then have wd: "width (const_raster h w v) = w"
    by (cases h) (simp_all add: width_def const_raster_def)
  have col: "map (\<lambda>r. r ! j) (const_raster h w v) = replicate h v" if "j < w" for j
    using that by (simp add: const_raster_def)
  have cols: "map (\<lambda>j. f (map (\<lambda>r. r ! j) (const_raster h w v))) [0..<w]
              = replicate w (replicate h v)"
    by (rule replicate_eqI) (auto simp: col f)
  have len: "length (const_raster h w v) = h"
    by (simp add: const_raster_def)
  have rows: "map (\<lambda>i. map (\<lambda>c. c ! i) (replicate w (replicate h v))) [0..<h]
        = replicate h (replicate w v)"
    by (rule replicate_eqI) auto
  show ?thesis
    unfolding along_axis0_def Let_def wd len cols
    unfolding const_raster_def by (rule rows)
qed

lemma min_or_max_filter_const:
  "min_or_max_filter (const_raster h w v) sz origin minimum = const_raster h w v"
  by (simp add: min_or_max_filter_def Let_def along_axis0_const along_axis1_const
      minimum_filter1d_const maximum_filter1d_const)

lemma grey_opening_const: "grey_opening (const_raster h w v) sz = const_raster h w v"
  by (simp add: grey_opening_def grey_erosion_def grey_dilation_def min_or_max_filter_const)

text \<open>
  C9: for a pair with \<open>before\<close> equal to \<open>after\<close> elementwise, on a raster with at least
  one pixel whose samples are all finite and strictly positive, the log ratio is all zeros,
  the threshold is 0, no pixel is strictly above it, and both the change map and the
  morphologically cleaned map (for every window size) are all zeros.
\<close>

theorem zero_change_baseline:
  assumes wf: "wf_raster img"
    and pos: "\<forall>x \<in> set (concat img). \<exists>r. 0 < r \<and> x = Fin r"
  shows "log_ratio img img = Inr (const_raster (length img) (width img) (Fin 0)) \<and>
         thr k (const_raster (length img) (width img) (Fin 0)) = Fin 0 \<and>
         (\<forall>x \<in> set (concat (const_raster (length img) (width img) (Fin 0))).
             \<not> fgt x (thr k (const_raster (length img) (width img) (Fin 0)))) \<and>
         detect_change k img img = Inr (const_raster (length img) (width img) (Fin 0)) \<and>
         grey_opening (const_raster (length img) (width img) (Fin 0)) sz
           = const_raster (length img) (width img) (Fin 0)"
proof -
  let ?h = "length img" and ?w = "width img"
  let ?Z = "const_raster ?h ?w (Fin 0)"
  from wf have s: "has_shape ?h ?w img" and h: "0 < ?h" and w: "0 < ?w"
    by (simp_all add: wf_raster_def rect_has_shape)
  have "flog (fdiv x x) = Fin 0" if "x \<in> set (concat img)" for x
    using pos that by fastforce
  then have "ew1 (\<lambda>x. flog (fdiv x x)) img = ?Z"
    by (intro ew1_const[OF s]) blast
  then have lr: "log_ratio img img = Inr ?Z"
    by (simp add: log_ratio_same_shape[OF s s] ew2_same ew1_ew1)
  have t: "thr k ?Z = Fin 0"
    using h w by (rule thr_zeros)
  have above: "\<forall>x \<in> set (concat ?Z). \<not> fgt x (thr k ?Z)"
    by (simp add: t concat_const_raster fgt_def)
  have dc: "detect_change k img img = Inr ?Z"
    using h w by (simp add: detect_change_def lr thresholding_zeros)
  from lr t above dc show ?thesis
    by (simp add: grey_opening_const)
qed

theorem zero_change_baseline_witness:
  "log_ratio [[Fin 3, Fin 5]] [[Fin 3, Fin 5]] = Inr (const_raster 1 2 (Fin 0)) \<and>
   thr 2 (const_raster 1 2 (Fin 0)) = Fin 0 \<and>
   detect_change 2 [[Fin 3, Fin 5]] [[Fin 3, Fin 5]] = Inr (const_raster 1 2 (Fin 0)) \<and>
   grey_opening (const_raster 1 2 (Fin 0)) 3 = const_raster 1 2 (Fin 0)"
proof -
  have wf: "wf_raster [[Fin 3, Fin 5]]"
    by (simp add: wf_raster_def rect_def width_def)
  have pos: "\<forall>x \<in> set (concat [[Fin 3, Fin 5]]). \<exists>r. 0 < r \<and> x = Fin r"
    by simp
  have l: "length [[Fin 3, Fin 5]] = 1"
    by simp
  have w: "width [[Fin 3, Fin 5]] = 2"
    by (simp add: width_def)
  show ?thesis
    using zero_change_baseline[OF wf pos, of 2 3] unfolding l w by simp
qed

section \<open>The accumulator as a sum\<close>

lemma fadd_commute: "fadd a b = fadd b a"
  by (cases a; cases b) simp_all

lemma fadd_assoc: "fadd (fadd a b) c = fadd a (fadd b c)"
  by (cases a; cases b; cases c) simp_all

lemma fadd_zero_left: "fadd (Fin 0) a = a"
  by (cases a) simp_all

lemma fadd_left_commute: "fadd a (fadd b c) = fadd b (fadd a c)"
  by (metis fadd_assoc fadd_commute)

lemma fsum_fold: "fsum xs = fold fadd xs (Fin 0)"
proof -
  have "(\<lambda>x s. fadd s x) = fadd"
    by (intro ext) (rule fadd_commute)
  then show ?thesis
    by (simp add: fsum_def foldl_conv_fold)
qed

lemma fsum_mset: "mset xs = mset ys \<Longrightarrow> fsum xs = fsum ys"
proof -
  assume eq: "mset xs = mset ys"
  have "fold fadd xs = fold fadd ys"
    by (rule fold_multiset_equiv[OF _ eq]) (auto simp: fadd_left_commute)
  then show ?thesis
    by (simp add: fsum_fold)
qed

lemma foldl_fadd_fsum: "foldl fadd a xs = fadd a (fsum xs)"
proof (induction xs arbitrary: a)
  case Nil
  show ?case
    using fadd_commute[of a "Fin 0"] by (simp add: fsum_def fadd_zero_left)
next
  case (Cons x xs)
  have "foldl fadd a (x # xs) = fadd (fadd a x) (fsum xs)"
    by (simp add: Cons.IH)
  also have "\<dots> = fadd a (fadd x (fsum xs))"
    by (rule fadd_assoc)
  also have "fadd x (fsum xs) = fsum (x # xs)"
    using Cons.IH[of x] by (simp add: fsum_def fadd_zero_left)
  finally show ?case .
qed

lemma fsum_Cons: "fsum (x # xs) = foldl fadd x xs"
  by (simp add: fsum_def fadd_zero_left)

lemma fsum_append: "fsum (xs @ ys) = fadd (fsum xs) (fsum ys)"
  by (simp add: fsum_def foldl_fadd_fsum[of "foldl fadd (Fin 0) xs" ys])

lemma raster_eqI:
  assumes "has_shape h w a" and "\<And>i j. i < h \<Longrightarrow> j < w \<Longrightarrow> a ! i ! j = g i j"
  shows "a = map (\<lambda>i. map (\<lambda>j. g i j) [0..<w]) [0..<h]"
proof (rule nth_equalityI)
  show "length a = length (map (\<lambda>i. map (\<lambda>j. g i j) [0..<w]) [0..<h])"
    using assms(1) by (simp add: has_shape_def)
next
  fix i
  assume "i < length a"
  then have i: "i < h" using assms(1) by (simp add: has_shape_def)
  have "a ! i = map (\<lambda>j. g i j) [0..<w]"
    using i assms(2) has_shape_nth[OF assms(1) i] by (intro nth_equalityI) simp_all
  then show "a ! i = map (\<lambda>i. map (\<lambda>j. g i j) [0..<w]) [0..<h] ! i"
    using i by simp
qed

lemma sum_maps_Cons:
  assumes "has_shape h w m"
  shows "sum_maps (m # ms) =
         map (\<lambda>i. map (\<lambda>j. fsum (map (\<lambda>a. a ! i ! j) (m # ms))) [0..<w]) [0..<h]"
proof (cases "h = 0")
  case True
  with assms show ?thesis by (simp add: sum_maps_def has_shape_def)
next
  case False
  with assms have "width m = w" by (simp add: has_shape_width)
  moreover have "length m = h" using assms by (simp add: has_shape_def)
  ultimately show ?thesis by (simp add: sum_maps_def)
qed

lemma sum_maps_shape:
  assumes "ms \<noteq> []" and "\<forall>a \<in> set ms. has_shape h w a"
  shows "sum_maps ms =
         map (\<lambda>i. map (\<lambda>j. fsum (map (\<lambda>a. a ! i ! j) ms)) [0..<w]) [0..<h]"
proof -
  from assms(1) obtain m r where ms: "ms = m # r" by (cases ms) auto
  with assms(2) have "has_shape h w m" by simp
  then show ?thesis unfolding ms by (rule sum_maps_Cons)
qed

lemma has_shape_sum_maps:
  assumes "ms \<noteq> []" and "\<forall>a \<in> set ms. has_shape h w a"
  shows "has_shape h w (sum_maps ms)"
  by (simp add: sum_maps_shape[OF assms] has_shape_def)

lemma nth_sum_maps:
  assumes "ms \<noteq> []" and "\<forall>a \<in> set ms. has_shape h w a" and "i < h" and "j < w"
  shows "sum_maps ms ! i ! j = fsum (map (\<lambda>a. a ! i ! j) ms)"
  using assms(3,4) by (simp add: sum_maps_shape[OF assms(1,2)])

lemma has_shape_foldl_ew2:
  assumes "has_shape h w cd" and "\<forall>m \<in> set ms. has_shape h w m"
  shows "has_shape h w (foldl (ew2 fadd) cd ms)"
  using assms by (induction ms arbitrary: cd) (simp_all add: has_shape_ew2)

lemma nth_foldl_ew2:
  assumes "has_shape h w cd" and "\<forall>m \<in> set ms. has_shape h w m" and "i < h" and "j < w"
  shows "foldl (ew2 fadd) cd ms ! i ! j = foldl fadd (cd ! i ! j) (map (\<lambda>a. a ! i ! j) ms)"
  using assms by (induction ms arbitrary: cd) (simp_all add: has_shape_ew2 nth_ew2)

lemma foldl_ew2_sum_maps:
  assumes m: "has_shape h w m" and ms: "\<forall>a \<in> set ms. has_shape h w a"
  shows "foldl (ew2 fadd) m ms = sum_maps (m # ms)"
proof -
  have "foldl (ew2 fadd) m ms =
        map (\<lambda>i. map (\<lambda>j. fsum (map (\<lambda>a. a ! i ! j) (m # ms))) [0..<w]) [0..<h]"
    by (rule raster_eqI[OF has_shape_foldl_ew2[OF m ms]])
       (simp add: nth_foldl_ew2[OF m ms] fsum_Cons)
  then show ?thesis
    by (simp add: sum_maps_Cons[OF m])
qed

lemma sum_maps_mset:
  assumes sh: "\<forall>a \<in> set ms. has_shape h w a" and eq: "mset ms' = mset ms" and ne: "ms \<noteq> []"
  shows "sum_maps ms' = sum_maps ms"
proof -
  from eq have sets: "set ms' = set ms" by (rule mset_eq_setD)
  from ne eq have ne': "ms' \<noteq> []" by auto
  from sh sets have sh': "\<forall>a \<in> set ms'. has_shape h w a" by simp
  have "fsum (map (\<lambda>a. a ! i ! j) ms') = fsum (map (\<lambda>a. a ! i ! j) ms)" for i j
    by (rule fsum_mset) (simp add: eq)
  then show ?thesis
    unfolding sum_maps_shape[OF ne' sh'] sum_maps_shape[OF ne sh] by simp
qed

lemma sum_maps_split:
  assumes sh: "\<forall>a \<in> set ms. has_shape h w a" and eq: "mset (ms1 @ ms2) = mset ms"
    and ne1: "ms1 \<noteq> []" and ne2: "ms2 \<noteq> []"
  shows "ew2 fadd (sum_maps ms1) (sum_maps ms2) = sum_maps ms"
proof -
  from eq have "set (ms1 @ ms2) = set ms" by (rule mset_eq_setD)
  with sh have sh12: "\<forall>a \<in> set (ms1 @ ms2). has_shape h w a" by simp
  then have sh1: "\<forall>a \<in> set ms1. has_shape h w a" and sh2: "\<forall>a \<in> set ms2. has_shape h w a"
    by simp_all
  have ne12: "ms1 @ ms2 \<noteq> []" using ne1 by simp
  have whole: "sum_maps ms = sum_maps (ms1 @ ms2)"
    using sum_maps_mset[OF sh12 eq[symmetric] ne12] .
  have s1: "has_shape h w (sum_maps ms1)"
    using ne1 sh1 by (rule has_shape_sum_maps)
  have s2: "has_shape h w (sum_maps ms2)"
    using ne2 sh2 by (rule has_shape_sum_maps)
  have "ew2 fadd (sum_maps ms1) (sum_maps ms2) =
        map (\<lambda>i. map (\<lambda>j. fsum (map (\<lambda>a. a ! i ! j) (ms1 @ ms2))) [0..<w]) [0..<h]"
  proof (rule raster_eqI[OF has_shape_ew2[OF s1 s2]])
    fix i j
    assume ij: "i < h" "j < w"
    show "ew2 fadd (sum_maps ms1) (sum_maps ms2) ! i ! j =
          fsum (map (\<lambda>a. a ! i ! j) (ms1 @ ms2))"
      unfolding nth_ew2[OF s1 s2 ij] nth_sum_maps[OF ne1 sh1 ij] nth_sum_maps[OF ne2 sh2 ij]
      by (simp add: fsum_append)
  qed
  also have "\<dots> = sum_maps (ms1 @ ms2)"
    using sum_maps_shape[OF ne12 sh12] by simp
  finally show ?thesis
    by (simp add: whole)
qed

lemma pair_maps_Cons2:
  "pair_maps c (f1 # f2 # fs) = pair_map c f1 f2 # pair_maps c (f2 # fs)"
  by (simp add: pair_maps_def)

lemma pair_maps_same_shape:
  assumes "\<forall>f \<in> set fs. has_shape h w f"
  shows "\<exists>ms. pair_maps c fs = map Inr ms \<and> (\<forall>m \<in> set ms. has_shape h w m) \<and>
              length ms = length fs - 1"
  using assms
proof (induction fs rule: induct_list012)
  case 1
  then show ?case by (simp add: pair_maps_def)
next
  case (2 f)
  then show ?case by (simp add: pair_maps_def)
next
  case (3 f1 f2 fs)
  then obtain ms where ms: "pair_maps c (f2 # fs) = map Inr ms"
      "\<forall>m \<in> set ms. has_shape h w m" "length ms = length (f2 # fs) - 1"
    by auto
  from 3(3) obtain m where m: "pair_map c f1 f2 = Inr m" "has_shape h w m"
    using pair_map_same_shape[of h w f1 f2 c] by auto
  have "pair_maps c (f1 # f2 # fs) = map Inr (m # ms)"
    by (simp add: pair_maps_Cons2 m ms)
  moreover have "\<forall>a \<in> set (m # ms). has_shape h w a"
    using m ms by simp
  moreover have "length (m # ms) = length (f1 # f2 # fs) - 1"
    using ms by simp
  ultimately show ?case by blast
qed

lemma pair_loop_acc:
  assumes "pair_maps c (f # fs) = map Inr ms" and "\<forall>m \<in> set ms. has_shape h w m"
    and "has_shape h w cd"
  shows "pair_loop c (Suc i) (f # fs) (Some cd) = Inr (Some (foldl (ew2 fadd) cd ms))"
  using assms
proof (induction fs arbitrary: f ms cd i)
  case Nil
  then show ?case by (simp add: pair_maps_def)
next
  case (Cons f2 fs)
  from Cons.prems(1) obtain m ms' where ms: "ms = m # ms'"
    and m: "pair_map c f f2 = Inr m" and rest: "pair_maps c (f2 # fs) = map Inr ms'"
    by (cases ms) (auto simp: pair_maps_Cons2)
  have sm: "has_shape h w m" and sr: "\<forall>a \<in> set ms'. has_shape h w a"
    using Cons.prems(2) ms by simp_all
  have add: "iadd cd m = Inr (ew2 fadd cd m)"
    using Cons.prems(3) sm by (rule iadd_same_shape)
  have "pair_loop c (Suc i) (f # f2 # fs) (Some cd)
        = pair_loop c (Suc (Suc i)) (f2 # fs) (Some (ew2 fadd cd m))"
    by (simp add: m add)
  also have "\<dots> = Inr (Some (foldl (ew2 fadd) (ew2 fadd cd m) ms'))"
    by (rule Cons.IH[OF rest sr has_shape_ew2[OF Cons.prems(3) sm]])
  finally show ?case by (simp add: ms)
qed

lemma pipeline_fold:
  assumes "pair_maps c (f1 # f2 # fs) = map Inr (m # ms)"
    and "\<forall>a \<in> set (m # ms). has_shape h w a"
  shows "pipeline c (f1 # f2 # fs) = Inr (Some (foldl (ew2 fadd) m ms))"
proof -
  from assms(1) have m: "pair_map c f1 f2 = Inr m"
    and rest: "pair_maps c (f2 # fs) = map Inr ms"
    by (simp_all add: pair_maps_Cons2)
  have "pipeline c (f1 # f2 # fs) = pair_loop c (Suc 0) (f2 # fs) (Some m)"
    by (simp add: pipeline_def m)
  also have "\<dots> = Inr (Some (foldl (ew2 fadd) m ms))"
    using assms(2) by (intro pair_loop_acc[OF rest, where h = h and w = w]) simp_all
  finally show ?thesis .
qed

text \<open>
  C8: for every sequence of at least 2 rasters of one shape, every pair of the \<open>N - 1\<close>
  overlapping consecutive pairs yields a map when filter, change detection and cleaning
  are run on it alone, and the heatmap the loop returns is the elementwise sum of these
  maps.  The sum does not depend on the order of reduction: summing the maps in any other
  order, or summing two parts of them separately and adding the partial sums, gives the
  same heatmap.  (Sample arithmetic is exact in this model, so the floating-point
  tolerance of the claim is zero here.)
\<close>

theorem heatmap_is_sum_of_pair_maps:
  assumes len: "2 \<le> length features"
    and sh: "\<forall>f \<in> set features. has_shape h w f"
  shows "\<exists>ms. pair_maps c features = map Inr ms \<and>
              length ms = length features - 1 \<and>
              pipeline c features = Inr (Some (sum_maps ms)) \<and>
              (\<forall>ms'. mset ms' = mset ms \<longrightarrow> sum_maps ms' = sum_maps ms) \<and>
              (\<forall>ms1 ms2. ms1 \<noteq> [] \<and> ms2 \<noteq> [] \<and> mset (ms1 @ ms2) = mset ms \<longrightarrow>
                 ew2 fadd (sum_maps ms1) (sum_maps ms2) = sum_maps ms)"
proof -
  from pair_maps_same_shape[OF sh, of c] obtain ms where
    ms: "pair_maps c features = map Inr ms" "\<forall>m \<in> set ms. has_shape h w m"
        "length ms = length features - 1"
    by blast
  from len obtain f1 r1 where "features = f1 # r1"
    by (cases features) auto
  moreover from this len obtain f2 fs where "r1 = f2 # fs"
    by (cases r1) auto
  ultimately have fs: "features = f1 # f2 # fs"
    by simp
  with ms(3) obtain m r where mr: "ms = m # r"
    by (cases ms) auto
  have "pipeline c features = Inr (Some (foldl (ew2 fadd) m r))"
    using ms(1,2) unfolding fs mr by (rule pipeline_fold)
  also have "foldl (ew2 fadd) m r = sum_maps ms"
    using ms(2) unfolding mr by (intro foldl_ew2_sum_maps[where h = h and w = w]) simp_all
  finally have heat: "pipeline c features = Inr (Some (sum_maps ms))" .
  have ne: "ms \<noteq> []" using mr by simp
  have perm: "\<forall>ms'. mset ms' = mset ms \<longrightarrow> sum_maps ms' = sum_maps ms"
    using sum_maps_mset[OF ms(2) _ ne] by blast
  have split: "\<forall>ms1 ms2. ms1 \<noteq> [] \<and> ms2 \<noteq> [] \<and> mset (ms1 @ ms2) = mset ms \<longrightarrow>
                 ew2 fadd (sum_maps ms1) (sum_maps ms2) = sum_maps ms"
    using sum_maps_split[OF ms(2)] by blast
  from ms(1) ms(3) heat perm split show ?thesis by blast
qed

theorem heatmap_is_sum_of_pair_maps_witness:
  "\<exists>ms. pair_maps notebook_config [flat1, flat2, flat1] = map Inr ms \<and>
        length ms = 2 \<and>
        pipeline notebook_config [flat1, flat2, flat1] = Inr (Some (sum_maps ms))"
proof -
  have len: "2 \<le> length [flat1, flat2, flat1]" by simp
  have sh: "\<forall>f \<in> set [flat1, flat2, flat1]. has_shape 2 2 f"
    by (simp add: has_shape_def flat1_def flat2_def)
  from heatmap_is_sum_of_pair_maps[OF len sh, of notebook_config]
  obtain ms where a: "pair_maps notebook_config [flat1, flat2, flat1] = map Inr ms"
    and b: "length ms = length [flat1, flat2, flat1] - 1"
    and c: "pipeline notebook_config [flat1, flat2, flat1] = Inr (Some (sum_maps ms))"
    by blast
  from b have "length ms = 2" by simp
  with a c show ?thesis by blast
qed

section \<open>Morphological opening\<close>

text \<open>
  Reading the reflected line at the position a dilation window reaches, and from there
  at a suitable position of the erosion window, leads back to the starting index: the
  dilation window is the mirror image of the erosion window, also for an even size.
\<close>

lemma reflect_low:
  assumes "0 < n" and "k mod (2 * int n) < int n"
  shows "int (reflect n k) = k mod (2 * int n)"
proof -
  have "0 \<le> k mod (2 * int n)" using assms(1) by simp
  with assms(2) show ?thesis by (simp add: reflect_def Let_def)
qed

lemma reflect_high:
  assumes "0 < n" and "\<not> k mod (2 * int n) < int n"
  shows "int (reflect n k) = 2 * int n - 1 - k mod (2 * int n)"
proof -
  have "k mod (2 * int n) < 2 * int n" using assms(1) by simp
  with assms(2) show ?thesis by (simp add: reflect_def Let_def)
qed

lemma reflect_id: "i < n \<Longrightarrow> reflect n (int i) = i"
  by (simp add: reflect_def Let_def)

lemma reflect_mirror:
  assumes "i < n" and "k mod (2 * int n) = 2 * int n - 1 - int i"
  shows "reflect n k = i"
  using assms by (simp add: reflect_def Let_def)

lemma reflect_same:
  assumes "i < n" and "k mod (2 * int n) = int i"
  shows "reflect n k = i"
  using assms by (simp add: reflect_def Let_def)

lemma reflect_back_int:
  fixes \<kappa> p q :: int
  assumes n: "0 < n" and i: "i < n" and pq: "p = q \<or> p = q + 1"
    and \<kappa>: "- q \<le> \<kappa>" "\<kappa> \<le> p"
  shows "\<exists>\<epsilon>. - p \<le> \<epsilon> \<and> \<epsilon> \<le> q \<and> reflect n (int (reflect n (int i + \<kappa>)) + \<epsilon>) = i"
proof -
  let ?N = "2 * int n"
  let ?m = "(int i + \<kappa>) mod ?N"
  have small: "(int i) mod ?N = int i"
    using i by simp
  have mirror: "(?N - 1 - int i) mod ?N = ?N - 1 - int i"
    using i by simp
  show ?thesis
  proof (cases "?m < int n")
    case True
    then have r: "int (reflect n (int i + \<kappa>)) = ?m"
      using n by (intro reflect_low)
    have "(?m + (- \<kappa>)) mod ?N = (int i + \<kappa> + (- \<kappa>)) mod ?N"
      by (rule mod_add_left_eq)
    then have "(?m + (- \<kappa>)) mod ?N = int i"
      using small by simp
    then have "reflect n (int (reflect n (int i + \<kappa>)) + (- \<kappa>)) = i"
      unfolding r using i by (intro reflect_same)
    moreover have "- p \<le> - \<kappa>" "- \<kappa> \<le> q"
      using \<kappa> by simp_all
    ultimately show ?thesis by blast
  next
    case False
    then have r: "int (reflect n (int i + \<kappa>)) = ?N - 1 - ?m"
      using n by (intro reflect_high)
    have shift: "(?N - 1 - ?m + e) mod ?N = (?N - 1 - int i + (e - \<kappa>)) mod ?N" for e
    proof -
      have "(?N - 1 - ?m + e) mod ?N = ((?N - 1 + e) - ?m) mod ?N"
        by (simp add: algebra_simps)
      also have "\<dots> = ((?N - 1 + e) - (int i + \<kappa>)) mod ?N"
        by (rule mod_diff_right_eq)
      finally show ?thesis by (simp add: algebra_simps)
    qed
    show ?thesis
    proof (cases "\<kappa> \<le> q")
      case True
      have "(?N - 1 - ?m + \<kappa>) mod ?N = ?N - 1 - int i"
        using shift[of \<kappa>] mirror by simp
      then have "reflect n (int (reflect n (int i + \<kappa>)) + \<kappa>) = i"
        unfolding r using i by (intro reflect_mirror)
      moreover have "- p \<le> \<kappa>"
        using \<kappa> pq by auto
      ultimately show ?thesis using True by blast
    next
      case nq: False
      with \<kappa> pq have kp: "\<kappa> = p" and pq1: "p = q + 1" by auto
      show ?thesis
      proof (cases "int n \<le> p")
        case True
        have "(?N - 1 - int i + (\<kappa> - ?N - \<kappa>)) mod ?N = (?N - 1 - int i - ?N) mod ?N"
          by (simp add: algebra_simps)
        also have "\<dots> = (?N - 1 - int i) mod ?N"
          using mod_diff_eq[of "?N - 1 - int i" ?N ?N] by simp
        finally have "(?N - 1 - ?m + (\<kappa> - ?N)) mod ?N = ?N - 1 - int i"
          using shift[of "\<kappa> - ?N"] mirror by simp
        then have "reflect n (int (reflect n (int i + \<kappa>)) + (\<kappa> - ?N)) = i"
          unfolding r using i by (intro reflect_mirror)
        moreover have "- p \<le> \<kappa> - ?N" "\<kappa> - ?N \<le> q"
          using True kp pq1 n by simp_all
        ultimately show ?thesis by blast
      next
        case pn: False
        have range: "0 \<le> int i + \<kappa>" "int i + \<kappa> < ?N"
          using pn kp pq1 \<kappa> i by simp_all
        then have m: "?m = int i + \<kappa>"
          by simp
        with False have ge: "int n \<le> int i + \<kappa>" by simp
        let ?e = "2 * int i + 1 + \<kappa> - ?N"
        have e: "int (reflect n (int i + \<kappa>)) + ?e = int i"
          unfolding r m by simp
        have "reflect n (int (reflect n (int i + \<kappa>)) + ?e) = i"
          unfolding e using i by (rule reflect_id)
        moreover have "- p \<le> ?e" "?e \<le> q"
          using ge kp pq1 i by simp_all
        ultimately show ?thesis by blast
      qed
    qed
  qed
qed

lemma fle_refl: "a \<noteq> NaN \<Longrightarrow> fle a a"
  by (simp add: fle_def)

lemma flt_trans: "flt a b \<Longrightarrow> flt b c \<Longrightarrow> flt a c"
  by (cases a; cases b; cases c) simp_all

lemma fle_trans: "fle a b \<Longrightarrow> fle b c \<Longrightarrow> fle a c"
  by (auto simp: fle_def intro: flt_trans)

lemma fle_total: "a \<noteq> NaN \<Longrightarrow> b \<noteq> NaN \<Longrightarrow> \<not> flt b a \<Longrightarrow> fle a b"
  by (cases a; cases b) (auto simp: fle_def)

lemma fmin_le_left: "a \<noteq> NaN \<Longrightarrow> b \<noteq> NaN \<Longrightarrow> fle (fmin a b) a"
  by (simp add: fmin_def fle_def)

lemma fmin_le_right: "a \<noteq> NaN \<Longrightarrow> b \<noteq> NaN \<Longrightarrow> fle (fmin a b) b"
  by (simp add: fmin_def fle_total fle_refl)

lemma fmin_cases: "fmin a b = a \<or> fmin a b = b"
  by (simp add: fmin_def)

lemma fmax_cases: "fmax a b = a \<or> fmax a b = b"
  by (simp add: fmax_def)

lemma foldl_fmin_mem: "foldl fmin x xs \<in> set (x # xs)"
proof (induction xs arbitrary: x)
  case Nil
  show ?case by simp
next
  case (Cons a xs)
  from Cons.IH[of "fmin x a"] fmin_cases[of x a] show ?case by auto
qed

lemma foldl_fmax_mem: "foldl fmax x xs \<in> set (x # xs)"
proof (induction xs arbitrary: x)
  case Nil
  show ?case by simp
next
  case (Cons a xs)
  from Cons.IH[of "fmax x a"] fmax_cases[of x a] show ?case by auto
qed

lemma foldl_fmin_le:
  assumes "x \<noteq> NaN" and "\<forall>y \<in> set xs. y \<noteq> NaN" and "z \<in> set (x # xs)"
  shows "fle (foldl fmin x xs) z"
  using assms
proof (induction xs arbitrary: x z)
  case Nil
  then show ?case by (simp add: fle_refl)
next
  case (Cons a xs)
  have a: "a \<noteq> NaN" and rest: "\<forall>y \<in> set xs. y \<noteq> NaN"
    using Cons.prems(2) by simp_all
  have m: "fmin x a \<noteq> NaN"
    using fmin_cases[of x a] Cons.prems(1) a by auto
  have head: "fle (foldl fmin (fmin x a) xs) (fmin x a)"
    using Cons.IH[OF m rest, of "fmin x a"] by simp
  show ?case
  proof (cases "z \<in> set xs")
    case True
    then show ?thesis using Cons.IH[OF m rest, of z] by simp
  next
    case False
    with Cons.prems(3) have "z = x \<or> z = a" by auto
    then have "fle (fmin x a) z"
      using fmin_le_left[OF Cons.prems(1) a] fmin_le_right[OF Cons.prems(1) a] by auto
    with head show ?thesis by (auto intro: fle_trans)
  qed
qed

lemma window_nth:
  "k < sz \<Longrightarrow> window sz origin line i ! k
     = line ! reflect (length line) (int i - int (sz div 2) - origin + int k)"
  by (simp add: window_def)

lemma length_window: "length (window sz origin line i) = sz"
  by (simp add: window_def)

lemma fold1_fmin_le:
  assumes "\<forall>y \<in> set ws. y \<noteq> NaN" and "z \<in> set ws"
  shows "fle (fold1 fmin ws) z"
proof (cases ws)
  case Nil
  with assms(2) show ?thesis by simp
next
  case (Cons x xs)
  with assms show ?thesis
    by (simp add: fold1_def del: set_simps) (rule foldl_fmin_le, auto)
qed

lemma fold1_fmin_mem: "ws \<noteq> [] \<Longrightarrow> fold1 fmin ws \<in> set ws"
  using foldl_fmin_mem by (cases ws) (simp_all add: fold1_def)

lemma fold1_fmax_mem: "ws \<noteq> [] \<Longrightarrow> fold1 fmax ws \<in> set ws"
  using foldl_fmax_mem by (cases ws) (simp_all add: fold1_def)

lemma window_mem:
  assumes "0 < sz" and "x \<in> set (window sz origin line i)"
  shows "\<exists>k<sz. x = line ! reflect (length line) (int i - int (sz div 2) - origin + int k)"
  using assms(2) by (auto simp: window_def)

lemma minimum_filter1d_le:
  assumes nan: "\<forall>y \<in> set line. y \<noteq> NaN" and i: "i < length line" and k: "k < sz"
  shows "fle (minimum_filter1d sz origin line ! i)
             (line ! reflect (length line) (int i - int (sz div 2) - origin + int k))"
proof -
  have n: "0 < length line" using i by auto
  have "\<forall>y \<in> set (window sz origin line i). y \<noteq> NaN"
    using nan n by (auto simp: window_def reflect_less)
  moreover have "window sz origin line i ! k \<in> set (window sz origin line i)"
    using k by (intro nth_mem) (simp add: length_window)
  ultimately have "fle (fold1 fmin (window sz origin line i)) (window sz origin line i ! k)"
    by (rule fold1_fmin_le)
  then show ?thesis
    using i k by (simp add: minimum_filter1d_def window_nth)
qed

lemma minimum_filter1d_mem:
  assumes sz: "0 < sz" and i: "i < length line"
  shows "\<exists>k<sz. minimum_filter1d sz origin line ! i
           = line ! reflect (length line) (int i - int (sz div 2) - origin + int k)"
proof -
  have "window sz origin line i \<noteq> []"
    using sz length_window[of sz origin line i] by auto
  then have "fold1 fmin (window sz origin line i) \<in> set (window sz origin line i)"
    by (rule fold1_fmin_mem)
  then show ?thesis
    using i window_mem[OF sz] by (simp add: minimum_filter1d_def)
qed

lemma maximum_filter1d_mem:
  assumes sz: "0 < sz" and i: "i < length line"
  shows "\<exists>k<sz. maximum_filter1d sz origin line ! i
           = line ! reflect (length line) (int i - int (sz div 2) - origin + int k)"
proof -
  have "window sz origin line i \<noteq> []"
    using sz length_window[of sz origin line i] by auto
  then have "fold1 fmax (window sz origin line i) \<in> set (window sz origin line i)"
    by (rule fold1_fmax_mem)
  then show ?thesis
    using i window_mem[OF sz] by (simp add: maximum_filter1d_def)
qed

lemma reflect_back:
  assumes n: "0 < n" and i: "i < n" and k: "k < sz"
  shows "\<exists>k'<sz. reflect n (int (reflect n (int i - int (sz div 2)
                                         - (if even sz then - 1 else 0) + int k))
                            - int (sz div 2) + int k') = i"
proof -
  define p :: int where "p = int (sz div 2)"
  define q :: int where "q = int sz - 1 - p"
  define d :: int where "d = (if even sz then - 1 else 0)"
  define \<kappa> :: int where "\<kappa> = int k - p - d"
  have pq: "p = q \<or> p = q + 1"
    unfolding p_def q_def by (cases "even sz") (auto elim!: evenE oddE)
  have lo: "- q \<le> \<kappa>"
    using k unfolding \<kappa>_def p_def q_def d_def by (cases "even sz") (auto elim!: evenE oddE)
  have hi: "\<kappa> \<le> p"
    using k unfolding \<kappa>_def p_def q_def d_def by (cases "even sz") (auto elim!: evenE oddE)
  from reflect_back_int[OF n i pq lo hi] obtain \<epsilon> where
    e: "- p \<le> \<epsilon>" "\<epsilon> \<le> q" "reflect n (int (reflect n (int i + \<kappa>)) + \<epsilon>) = i"
    by blast
  define k' where "k' = nat (\<epsilon> + p)"
  have k': "k' < sz"
    using e(1,2) unfolding k'_def q_def by simp
  have "int k' = \<epsilon> + p"
    using e(1) unfolding k'_def by simp
  then have a2: "int (reflect n (int i + \<kappa>)) - p + int k'
                  = int (reflect n (int i + \<kappa>)) + \<epsilon>"
    by simp
  have a1: "int i - p - d + int k = int i + \<kappa>"
    unfolding \<kappa>_def by simp
  have "reflect n (int (reflect n (int i - p - d + int k)) - p + int k') = i"
    unfolding a1 a2 by (rule e(3))
  with k' show ?thesis
    unfolding p_def d_def by blast
qed

lemma nan_free_nth:
  assumes "has_shape h w a" and "\<forall>x \<in> set (concat a). x \<noteq> NaN" and "i < h" and "j < w"
  shows "a ! i ! j \<noteq> NaN"
proof -
  have "a ! i \<in> set a" using assms(1,3) by (simp add: has_shape_def)
  moreover have "a ! i ! j \<in> set (a ! i)"
    using has_shape_nth[OF assms(1,3)] assms(4) by simp
  ultimately show ?thesis using assms(2) by auto
qed

lemma column_nth: "has_shape h w a \<Longrightarrow> i < h \<Longrightarrow> map (\<lambda>r. r ! j) a ! i = a ! i ! j"
  by (simp add: has_shape_def)

lemma column_length: "has_shape h w a \<Longrightarrow> length (map (\<lambda>r. r ! j) a) = h"
  by (simp add: has_shape_def)

lemma axis0_mem:
  assumes f: "\<And>line i. i < length line \<Longrightarrow>
               \<exists>k<sz. f line ! i = line ! reflect (length line) (int i - d + int k)"
    and sh: "has_shape h w a" and i: "i < h" and j: "j < w"
  shows "\<exists>k<sz. along_axis0 f a ! i ! j = a ! reflect h (int i - d + int k) ! j"
proof -
  let ?col = "map (\<lambda>r. r ! j) a"
  have len: "length ?col = h" using sh by (rule column_length)
  from f[of i ?col] i len obtain k where
    k: "k < sz" "f ?col ! i = ?col ! reflect h (int i - d + int k)"
    by auto
  have "reflect h (int i - d + int k) < h"
    using i by (intro reflect_less) simp
  then have "?col ! reflect h (int i - d + int k) = a ! reflect h (int i - d + int k) ! j"
    using sh by (intro column_nth)
  with k show ?thesis
    unfolding nth_along_axis0[OF sh i j] by auto
qed

lemma axis1_mem:
  assumes f: "\<And>line i. i < length line \<Longrightarrow>
               \<exists>k<sz. f line ! i = line ! reflect (length line) (int i - d + int k)"
    and sh: "has_shape h w a" and i: "i < h" and j: "j < w"
  shows "\<exists>k<sz. along_axis1 f a ! i ! j = a ! i ! reflect w (int j - d + int k)"
proof -
  have len: "length (a ! i) = w" using sh i by (rule has_shape_nth)
  from f[of j "a ! i"] j len show ?thesis
    unfolding nth_along_axis1[OF sh i] by auto
qed

lemma axis0_min_le:
  assumes sh: "has_shape h w a" and nan: "\<forall>x \<in> set (concat a). x \<noteq> NaN"
    and i: "i < h" and j: "j < w" and k: "k < sz"
  shows "fle (along_axis0 (minimum_filter1d sz origin) a ! i ! j)
             (a ! reflect h (int i - int (sz div 2) - origin + int k) ! j)"
proof -
  let ?col = "map (\<lambda>r. r ! j) a"
  have len: "length ?col = h" using sh by (rule column_length)
  have cn: "\<forall>y \<in> set ?col. y \<noteq> NaN"
  proof
    fix y assume "y \<in> set ?col"
    then obtain i' where "i' < h" "y = ?col ! i'"
      using len by (metis in_set_conv_nth)
    then show "y \<noteq> NaN"
      using nan_free_nth[OF sh nan _ j] column_nth[OF sh] by simp
  qed
  have r: "reflect h (int i - int (sz div 2) - origin + int k) < h"
    using i by (intro reflect_less) simp
  have "fle (minimum_filter1d sz origin ?col ! i)
            (?col ! reflect (length ?col) (int i - int (sz div 2) - origin + int k))"
    using cn _ k by (rule minimum_filter1d_le) (use i sh in \<open>simp add: has_shape_def\<close>)
  then show ?thesis
    unfolding nth_along_axis0[OF sh i j] len column_nth[OF sh r] .
qed

lemma axis1_min_le:
  assumes sh: "has_shape h w a" and nan: "\<forall>x \<in> set (concat a). x \<noteq> NaN"
    and i: "i < h" and j: "j < w" and k: "k < sz"
  shows "fle (along_axis1 (minimum_filter1d sz origin) a ! i ! j)
             (a ! i ! reflect w (int j - int (sz div 2) - origin + int k))"
proof -
  have len: "length (a ! i) = w" using sh i by (rule has_shape_nth)
  have "a ! i \<in> set a" using sh i by (simp add: has_shape_def)
  then have rn: "\<forall>y \<in> set (a ! i). y \<noteq> NaN"
    using nan by auto
  have "fle (minimum_filter1d sz origin (a ! i) ! j)
            ((a ! i) ! reflect (length (a ! i)) (int j - int (sz div 2) - origin + int k))"
    using rn _ k by (rule minimum_filter1d_le) (simp add: len j)
  then show ?thesis
    unfolding nth_along_axis1[OF sh i] len .
qed

lemma nan_free_axis0_min:
  assumes sh: "has_shape h w a" and nan: "\<forall>x \<in> set (concat a). x \<noteq> NaN" and sz: "0 < sz"
  shows "\<forall>x \<in> set (concat (along_axis0 (minimum_filter1d sz origin) a)). x \<noteq> NaN"
proof
  let ?b = "along_axis0 (minimum_filter1d sz origin) a"
  have shb: "has_shape h w ?b" using sh by (rule has_shape_along_axis0)
  fix x assume "x \<in> set (concat ?b)"
  then obtain r where r: "r \<in> set ?b" "x \<in> set r" by auto
  then obtain i where i: "i < h" "r = ?b ! i"
    using shb by (metis has_shape_def in_set_conv_nth)
  with r obtain j where j: "j < w" "x = ?b ! i ! j"
    using has_shape_nth[OF shb] by (metis in_set_conv_nth)
  have "\<exists>k<sz. ?b ! i ! j = a ! reflect h (int i - (int (sz div 2) + origin) + int k) ! j"
    using minimum_filter1d_mem[OF sz, of _ _ origin] sh i(1) j(1)
    by (intro axis0_mem) (simp add: algebra_simps)
  then obtain k where "?b ! i ! j = a ! reflect h (int i - (int (sz div 2) + origin) + int k) ! j"
    by blast
  moreover have "reflect h (int i - (int (sz div 2) + origin) + int k) < h"
    using i(1) by (intro reflect_less) simp
  ultimately show "x \<noteq> NaN"
    using nan_free_nth[OF sh nan _ j(1)] j(2) by simp
qed

lemma grey_erosion_le:
  assumes sh: "has_shape h w a" and nan: "\<forall>x \<in> set (concat a). x \<noteq> NaN"
    and sz: "1 < sz" and i: "i < h" and j: "j < w" and k0: "k0 < sz" and k1: "k1 < sz"
  shows "fle (grey_erosion a sz ! i ! j)
             (a ! reflect h (int i - int (sz div 2) + int k0)
                ! reflect w (int j - int (sz div 2) + int k1))"
proof -
  let ?b = "along_axis0 (minimum_filter1d sz 0) a"
  have shb: "has_shape h w ?b" using sh by (rule has_shape_along_axis0)
  have nb: "\<forall>x \<in> set (concat ?b). x \<noteq> NaN"
    using sh nan sz by (intro nan_free_axis0_min) simp_all
  have e: "grey_erosion a sz = along_axis1 (minimum_filter1d sz 0) ?b"
    using sz by (simp add: grey_erosion_def min_or_max_filter_def Let_def)
  let ?j' = "reflect w (int j - int (sz div 2) + int k1)"
  have j': "?j' < w" using j by (intro reflect_less) simp
  have "fle (grey_erosion a sz ! i ! j) (?b ! i ! ?j')"
    using axis1_min_le[OF shb nb i j k1, of 0] by (simp add: e)
  moreover have "fle (?b ! i ! ?j') (a ! reflect h (int i - int (sz div 2) + int k0) ! ?j')"
    using axis0_min_le[OF sh nan i j' k0, of 0] by simp
  ultimately show ?thesis by (rule fle_trans)
qed

lemma grey_dilation_mem:
  assumes sh: "has_shape h w g" and sz: "1 < sz" and i: "i < h" and j: "j < w"
  shows "\<exists>k0<sz. \<exists>k1<sz. grey_dilation g sz ! i ! j
           = g ! reflect h (int i - int (sz div 2) - (if even sz then - 1 else 0) + int k0)
               ! reflect w (int j - int (sz div 2) - (if even sz then - 1 else 0) + int k1)"
proof -
  let ?o = "if even sz then - 1 else 0 :: int"
  let ?d = "int (sz div 2) + ?o"
  let ?f = "maximum_filter1d sz ?o"
  let ?c = "along_axis0 ?f g"
  have shc: "has_shape h w ?c" using sh by (rule has_shape_along_axis0)
  have f: "\<exists>k<sz. ?f line ! i = line ! reflect (length line) (int i - ?d + int k)"
    if "i < length line" for line i
    using maximum_filter1d_mem[of sz i line ?o] sz that by (simp add: algebra_simps)
  have d: "grey_dilation g sz = along_axis1 ?f ?c"
    using sz by (simp add: grey_dilation_def min_or_max_filter_def Let_def)
  from axis1_mem[of sz ?f ?d, OF f shc i j] obtain k1 where
    k1: "k1 < sz" "along_axis1 ?f ?c ! i ! j = ?c ! i ! reflect w (int j - ?d + int k1)"
    by blast
  have j': "reflect w (int j - ?d + int k1) < w"
    using j by (intro reflect_less) simp
  from axis0_mem[of sz ?f ?d, OF f sh i j'] obtain k0 where
    k0: "k0 < sz" "?c ! i ! reflect w (int j - ?d + int k1)
                   = g ! reflect h (int i - ?d + int k0) ! reflect w (int j - ?d + int k1)"
    by blast
  have "int i - int (sz div 2) - ?o + int k0 = int i - ?d + int k0"
    and "int j - int (sz div 2) - ?o + int k1 = int j - ?d + int k1"
    by simp_all
  with k0 k1 d show ?thesis by metis
qed

text \<open>
  C10, as the claim states it, fails on a map that holds NaN, and thresholding can hand
  such a map to the cleaner.  On \<open>nan_map\<close> with window size 3 the cleaned map is 1.0 at
  pixel \<open>(1, 5)\<close>, where the input was 0.0; and with window size 1, where the cleaner
  copies its input, the NaN pixel \<open>(0, 5)\<close> is not less than or equal to itself.
\<close>

theorem grey_opening_flags_beside_nan:
  "nan_map ! 1 ! 5 = Fin 0 \<and>
   grey_opening nan_map 3 ! 1 ! 5 = Fin 1 \<and>
   \<not> fle (grey_opening nan_map 3 ! 1 ! 5) (nan_map ! 1 ! 5) \<and>
   \<not> fle (grey_opening nan_map 1 ! 0 ! 5) (nan_map ! 0 ! 5)"
proof -
  have "grey_opening nan_map 3 ! 1 ! 5 = Fin 1"
    by (simp add: nan_map_def morph_defs filter_defs)
  moreover have "grey_opening nan_map 1 = nan_map"
    by (simp add: morph_defs)
  ultimately show ?thesis
    by (simp add: nan_map_def fle_def)
qed

text \<open>
  C10 (amended): grey opening is anti-extensive on maps without NaN.  For every map that
  holds no NaN (in particular every change map with values 0.0 and 1.0 only), of any
  shape, and every window size, each pixel of the cleaned map is less than or equal to
  the same pixel of the input map; in particular the cleaner never gives 1.0 at a pixel
  where the input map was 0.0.
\<close>

theorem grey_opening_anti_extensive:
  assumes sh: "has_shape h w a" and nan: "\<forall>x \<in> set (concat a). x \<noteq> NaN"
    and i: "i < h" and j: "j < w"
  shows "fle (grey_opening a sz ! i ! j) (a ! i ! j) \<and>
         (a ! i ! j = Fin 0 \<longrightarrow> grey_opening a sz ! i ! j \<noteq> Fin 1)"
proof -
  have le: "fle (grey_opening a sz ! i ! j) (a ! i ! j)"
  proof (cases "1 < sz")
    case False
    then have "grey_opening a sz = a"
      by (simp add: grey_opening_def grey_erosion_def grey_dilation_def min_or_max_filter_def)
    then show ?thesis
      using nan_free_nth[OF sh nan i j] by (simp add: fle_refl)
  next
    case True
    let ?g = "grey_erosion a sz"
    let ?o = "if even sz then - 1 else 0 :: int"
    have shg: "has_shape h w ?g"
      using sh by (simp add: grey_erosion_def has_shape_min_or_max_filter)
    from grey_dilation_mem[OF shg True i j] obtain k0 k1 where
      k: "k0 < sz" "k1 < sz"
      and eq: "grey_opening a sz ! i ! j
               = ?g ! reflect h (int i - int (sz div 2) - ?o + int k0)
                    ! reflect w (int j - int (sz div 2) - ?o + int k1)"
      unfolding grey_opening_def by blast
    let ?i' = "reflect h (int i - int (sz div 2) - ?o + int k0)"
    let ?j' = "reflect w (int j - int (sz div 2) - ?o + int k1)"
    have h: "0 < h" and w: "0 < w" using i j by simp_all
    have i': "?i' < h" using h by (rule reflect_less)
    have j': "?j' < w" using w by (rule reflect_less)
    from reflect_back[OF h i k(1)] obtain k0' where
      k0': "k0' < sz" "reflect h (int ?i' - int (sz div 2) + int k0') = i"
      by blast
    from reflect_back[OF w j k(2)] obtain k1' where
      k1': "k1' < sz" "reflect w (int ?j' - int (sz div 2) + int k1') = j"
      by blast
    have "fle (?g ! ?i' ! ?j') (a ! i ! j)"
      using grey_erosion_le[OF sh nan True i' j' k0'(1) k1'(1)] unfolding k0'(2) k1'(2) .
    then show ?thesis unfolding eq .
  qed
  moreover have "grey_opening a sz ! i ! j \<noteq> Fin 1" if "a ! i ! j = Fin 0"
    using le that by (auto simp: fle_def)
  ultimately show ?thesis by blast
qed

theorem grey_opening_anti_extensive_witness:
  "fle (grey_opening [[Fin 0, Fin 1, Fin 0], [Fin 1, Fin 1, Fin 1], [Fin 1, Fin 1, Fin 1]] 3 ! 0 ! 0)
       ([[Fin 0, Fin 1, Fin 0], [Fin 1, Fin 1, Fin 1], [Fin 1, Fin 1, Fin 1]] ! 0 ! 0) \<and>
   grey_opening [[Fin 0, Fin 1, Fin 0], [Fin 1, Fin 1, Fin 1], [Fin 1, Fin 1, Fin 1]] 3 ! 0 ! 0
     \<noteq> Fin 1"
proof -
  let ?a = "[[Fin 0, Fin 1, Fin 0], [Fin 1, Fin 1, Fin 1], [Fin 1, Fin 1, Fin 1]]"
  have sh: "has_shape 3 3 ?a" by (simp add: has_shape_def)
  have nan: "\<forall>x \<in> set (concat ?a). x \<noteq> NaN" by simp
  have i: "(0::nat) < 3" by simp
  show ?thesis
    using grey_opening_anti_extensive[OF sh nan i i, of 3] by simp
qed

end
